theory Spec2Isabelle
  imports Complex_Main "HOL-Library.Word"
begin

section \<open>Connection builders of the simulation kernel\<close>

text \<open>
  A shallow embedding of \<^verbatim>\<open>nestkernel/conn_builder.cpp\<close>: the base class
  \<^verbatim>\<open>ConnBuilder\<close>, the constructors of the rule classes and the \<^verbatim>\<open>connect_\<close>
  methods of the one-to-one, fixed in-degree and symmetric Bernoulli rules.

  Conventions of the embedding.
  \<^item> A name of the source that ends in an underscore ends in a prime here
    (\<^verbatim>\<open>sources_\<close> is \<open>sources'\<close>).
  \<^item> A C++ exception is a value of type \<open>exn\<close>. A constructor returns \<open>exn + builder\<close>
    (\<open>Inl\<close> the exception: no object exists then); a method returns the builder after the call
    together with how the call ended, since a method that throws has still changed the object.
  \<^item> The body of an \<^verbatim>\<open>omp parallel\<close> region is a function of the thread number. The
    threads only write state of their own (their slot of \<^verbatim>\<open>exceptions_raised_\<close>, their
    cursor of an array parameter, their random streams, the connections of their targets), so
    the region is the fold of the body over the thread numbers. The order of the events of
    different threads in the event list is an artefact of that fold; no statement below reads it.
  \<^item> Values of weights, delays and synapse attributes are floating point numbers that the
    storage backend consumes; they are not represented. What is represented is which
    parameter objects are asked for a value, in which order, by which thread and with which
    random stream.
\<close>

subsection \<open>Exceptions\<close>

datatype exn =
    BadProperty
  | NotImplemented
  | KernelException
  | UnknownSynapseType
  | IllegalConnection
  | DimensionMismatch
  | WrappedThreadException exn
  | OutOfRange
    \<comment> \<open>\<^verbatim>\<open>std::out_of_range\<close>, from \<^verbatim>\<open>vector::at\<close>\<close>
  | UndefinedBehaviour
    \<comment> \<open>not an exception of the source: the C++ standard leaves the execution undefined
        (division by zero, write past the end of a vector)\<close>

text \<open>How a call ended. \<open>Running\<close>: a loop of the call was still iterating when the
  iteration bound of the model was reached. \<open>Terminated\<close>: an exception left a parallel
  region, which ends the process.\<close>

datatype outcome = Returned | Raised exn | Running | Terminated

subsection \<open>Node collections, nodes and the kernel services\<close>

text \<open>Modelled from the spec: the class \<^verbatim>\<open>NodeCollection\<close> is not among the sources. It is
  an ordered finite sequence of node identifiers; \<^verbatim>\<open>is_range()\<close> and \<^verbatim>\<open>valid()\<close>
  are properties the collection carries.\<close>

record node_collection =
  node_ids :: "nat list"
  is_range :: bool
  valid :: bool

definition size_nc :: "node_collection \<Rightarrow> nat" where
  "size_nc c = length (node_ids c)"

fun index_of :: "nat \<Rightarrow> nat list \<Rightarrow> nat option" where
  "index_of x [] = None"
| "index_of x (y # ys) = (if x = y then Some 0 else map_option Suc (index_of x ys))"

text \<open>\<^verbatim>\<open>get_lid\<close>: the position of a node in the collection, negative (here \<open>None\<close>)
  when the node is not a member.\<close>

definition get_lid :: "node_collection \<Rightarrow> nat \<Rightarrow> nat option" where
  "get_lid c nid = index_of nid (node_ids c)"

record node =
  node_id :: nat
  is_proxy :: bool
  has_proxies :: bool
  get_thread :: nat

text \<open>Modelled from the spec: \<^verbatim>\<open>Parameter\<close> (a parameter object of a rule, constant or
  sampled with the stream it is given) and the values of a synapse specification are not among
  the sources. A specification value is a numeric literal, a distribution object (with
  whether it can be reset, which neither the spec nor the sources decide) or an array (given
  by its length).\<close>

datatype parameter = ConstantParameter real | RandomParameter

datatype param_spec =
    DoubleValue
  | LongValue
  | DistributionValue bool
  | DoubleArray nat
  | LongArray nat

datatype rng_id = RankSynced | VpSynced nat | VpSpecific nat

text \<open>A synapse specification is a dictionary: the keys the builder reads by name are
  fields (\<open>None\<close> when the key is not known), the other keys are \<open>attributes\<close>.\<close>

record syn_spec =
  synapse_model :: "string option"
  weight :: "param_spec option"
  delay :: "param_spec option"
  attributes :: "(string \<times> param_spec) list"
  pre_synaptic_element :: "string option"
  post_synaptic_element :: "string option"

record connector_model =
  default_weight :: param_spec
  default_delay :: param_spec
  other_defaults :: "(string \<times> param_spec) list"
  requires_symmetric :: bool
  check_synapse_params :: "syn_spec \<Rightarrow> exn option"

text \<open>Modelled from the spec: the kernel managers are not among the sources. The node
  service gives the nodes of each thread, the model registry the synapse models by name (the
  identifier of a model is its position), the random number service the outcomes of each
  stream.\<close>

record kernel =
  num_threads :: nat
  node_manager_size :: nat
  local_nodes :: "nat \<Rightarrow> node list"
  synapse_models :: "(string \<times> connector_model) list"
  rng_outcomes :: "rng_id \<Rightarrow> nat \<Rightarrow> nat"

definition proxy_node :: "nat \<Rightarrow> nat \<Rightarrow> node" where
  "proxy_node nid tid = \<lparr>node_id = nid, is_proxy = True, has_proxies = True, get_thread = tid\<rparr>"

definition get_node_or_proxy :: "kernel \<Rightarrow> nat \<Rightarrow> nat \<Rightarrow> node" where
  "get_node_or_proxy k nid tid =
     (case find (\<lambda>n. node_id n = nid) (local_nodes k tid) of
        Some n \<Rightarrow> n
      | None \<Rightarrow> proxy_node nid tid)"

fun find_model :: "string \<Rightarrow> (string \<times> connector_model) list \<Rightarrow> nat option" where
  "find_model name [] = None"
| "find_model name (m # ms) =
     (if fst m = name then Some 0 else map_option Suc (find_model name ms))"

definition get_synapse_model_id :: "kernel \<Rightarrow> string \<Rightarrow> exn + nat" where
  "get_synapse_model_id k name =
     (case find_model name (synapse_models k) of
        None \<Rightarrow> Inl UnknownSynapseType
      | Some i \<Rightarrow> Inr i)"

definition get_connection_model :: "kernel \<Rightarrow> nat \<Rightarrow> connector_model" where
  "get_connection_model k i = snd (synapse_models k ! i)"

subsection \<open>Connection parameters\<close>

text \<open>Modelled from the spec: \<^verbatim>\<open>ConnParameter\<close> is not among the sources. A constant
  (\<open>True\<close> when it provides a long), a distribution sampled with the stream it is given, or an
  array with one cursor per thread; the cursor advances on every value and on every skip, and
  \<^verbatim>\<open>reset\<close> puts it back to the start. Whether a distribution can be reset is a property
  of the object.\<close>

datatype conn_parameter =
    ScalarParameter bool
  | DistributionParameter bool
  | ArrayParameter bool nat "nat list"

fun create :: "param_spec \<Rightarrow> nat \<Rightarrow> conn_parameter" where
  "create DoubleValue nthreads = ScalarParameter False"
| "create LongValue nthreads = ScalarParameter True"
| "create (DistributionValue r) nthreads = DistributionParameter r"
| "create (DoubleArray n) nthreads = ArrayParameter False n (replicate nthreads 0)"
| "create (LongArray n) nthreads = ArrayParameter True n (replicate nthreads 0)"

fun is_array :: "conn_parameter \<Rightarrow> bool" where
  "is_array (ArrayParameter l n cs) = True"
| "is_array p = False"

fun is_scalar :: "conn_parameter \<Rightarrow> bool" where
  "is_scalar (ScalarParameter l) = True"
| "is_scalar p = False"

fun provides_long :: "conn_parameter \<Rightarrow> bool" where
  "provides_long (ScalarParameter l) = l"
| "provides_long (DistributionParameter r) = False"
| "provides_long (ArrayParameter l n cs) = l"

fun reset :: "conn_parameter \<Rightarrow> exn + conn_parameter" where
  "reset (ScalarParameter l) = Inr (ScalarParameter l)"
| "reset (DistributionParameter r) =
     (if r then Inr (DistributionParameter r) else Inl NotImplemented)"
| "reset (ArrayParameter l n cs) = Inr (ArrayParameter l n (map (\<lambda>c. 0) cs))"

fun skip :: "nat \<Rightarrow> nat \<Rightarrow> conn_parameter \<Rightarrow> conn_parameter" where
  "skip tid n (ArrayParameter l len cs) =
     ArrayParameter l len (if tid < length cs then cs[tid := cs ! tid + n] else cs)"
| "skip tid n p = p"

subsection \<open>The builder\<close>

text \<open>The rule specification: the keys the constructors read. A key of the three flags that
  is absent leaves the default. \<open>indegree\<close>, \<open>outdegree\<close> and \<open>p\<close> are a literal or a
  parameter object. A probability literal is a double that the constructors only compare with 0
  and 1; it is the real number it denotes.\<close>

datatype degree_spec = ScalarDegree int | ParameterDegree parameter

datatype prob_spec = ScalarProb real | ParameterProb parameter

record conn_spec =
  cs_allow_autapses :: "bool option"
  cs_allow_multapses :: "bool option"
  cs_make_symmetric :: "bool option"

datatype param_ref = WeightRef nat | DelayRef nat | SynapseParamRef nat string

datatype event =
    Draw rng_id              \<comment> \<open>one value taken from the stream\<close>
  | Connect nat nat nat nat  \<comment> \<open>source, target, thread, synapse model: an edge handed to the storage\<close>
  | Warning string

text \<open>The fields of \<^verbatim>\<open>ConnBuilder\<close>, followed by the part of the simulator the builder
  acts on: how far each random stream has been consumed, and the events so far (draws,
  edges handed to the connection storage, warnings logged), oldest first.\<close>

record builder =
  sources' :: node_collection
  targets' :: node_collection
  allow_autapses' :: bool
  allow_multapses' :: bool
  make_symmetric' :: bool
  creates_symmetric_connections' :: bool
  exceptions_raised' :: "exn option list"
  use_structural_plasticity' :: bool
  parameters_requiring_skipping' :: "param_ref list"
  synapse_model_id' :: "nat list"
  default_weight' :: "bool list"
  default_delay' :: "bool list"
  default_weight_and_delay' :: "bool list"
  weights' :: "conn_parameter option list"
  delays' :: "conn_parameter option list"
  synapse_params' :: "(string \<times> conn_parameter) list list"
  pre_synaptic_element_name' :: string
  post_synaptic_element_name' :: string
  rng_pos :: "rng_id \<Rightarrow> nat"
  events :: "event list"

definition skip_syn_params' :: "string list" where
  "skip_syn_params' =
     [''weight'', ''delay'', ''min_delay'', ''max_delay'', ''num_connections'', ''synapse_model'']"

definition set_synapse_model' :: "kernel \<Rightarrow> syn_spec \<Rightarrow> nat \<Rightarrow> builder \<Rightarrow> exn + builder" where
  "set_synapse_model' k syn_params synapse_indx b =
     (case synapse_model syn_params of
        None \<Rightarrow> Inl BadProperty
      | Some syn_name \<Rightarrow>
          (case get_synapse_model_id k syn_name of
             Inl e \<Rightarrow> Inl e
           | Inr synapse_model_id \<Rightarrow>
               (case check_synapse_params (get_connection_model k synapse_model_id) syn_params of
                  Some e \<Rightarrow> Inl e
                | None \<Rightarrow>
                    Inr (b\<lparr>synapse_model_id' :=
                             (synapse_model_id' b)[synapse_indx := synapse_model_id]\<rparr>))))"

text \<open>Modelled from the spec: \<^verbatim>\<open>register_parameters_requiring_skipping_\<close> is defined
  outside the sources. The array parameters are the ones registered.\<close>

definition register_parameters_requiring_skipping' ::
    "param_ref \<Rightarrow> conn_parameter \<Rightarrow> builder \<Rightarrow> builder" where
  "register_parameters_requiring_skipping' r p b =
     (if is_array p
      then b\<lparr>parameters_requiring_skipping' := parameters_requiring_skipping' b @ [r]\<rparr>
      else b)"

definition set_default_weight_or_delay' :: "kernel \<Rightarrow> syn_spec \<Rightarrow> nat \<Rightarrow> builder \<Rightarrow> builder" where
  "set_default_weight_or_delay' k syn_params synapse_indx b =
     (let syn_defaults = get_connection_model k (synapse_model_id' b ! synapse_indx);
          dw = (weight syn_params = None);
          dd = (delay syn_params = None);
          dwd = (dw \<and> dd);
          w = create (case weight syn_params of Some v \<Rightarrow> v | None \<Rightarrow> default_weight syn_defaults)
                (num_threads k);
          d = create (case delay syn_params of Some v \<Rightarrow> v | None \<Rightarrow> default_delay syn_defaults)
                (num_threads k);
          b1 = b\<lparr>default_weight' := (default_weight' b)[synapse_indx := dw],
                 default_delay' := (default_delay' b)[synapse_indx := dd],
                 default_weight_and_delay' := (default_weight_and_delay' b)[synapse_indx := dwd]\<rparr>;
          b2 = (if \<not> dwd
                then (register_parameters_requiring_skipping' (WeightRef synapse_indx) w
                        (b1\<lparr>weights' := (weights' b1)[synapse_indx := Some w]\<rparr>))
                       \<lparr>delays' := (delays' b1)[synapse_indx := Some d]\<rparr>
                else if dw
                then b1\<lparr>delays' := (delays' b1)[synapse_indx := Some d]\<rparr>
                else b1)
      in register_parameters_requiring_skipping' (DelayRef synapse_indx) d b2)"

fun set_synapse_params_loop ::
    "nat \<Rightarrow> (string \<times> param_spec) list \<Rightarrow> syn_spec \<Rightarrow> nat \<Rightarrow> builder \<Rightarrow> builder" where
  "set_synapse_params_loop nthreads [] syn_params synapse_indx b = b"
| "set_synapse_params_loop nthreads (default_it # rest) syn_params synapse_indx b =
     (let param_name = fst default_it in
      if param_name \<in> set skip_syn_params'
      then set_synapse_params_loop nthreads rest syn_params synapse_indx b
      else (case map_of (attributes syn_params) param_name of
              None \<Rightarrow> set_synapse_params_loop nthreads rest syn_params synapse_indx b
            | Some v \<Rightarrow>
                (let p = create v nthreads;
                     b1 = b\<lparr>synapse_params' :=
                             (synapse_params' b)
                               [synapse_indx := synapse_params' b ! synapse_indx @ [(param_name, p)]]\<rparr>
                 in set_synapse_params_loop nthreads rest syn_params synapse_indx
                      (register_parameters_requiring_skipping'
                         (SynapseParamRef synapse_indx param_name) p b1))))"

definition set_synapse_params :: "kernel \<Rightarrow> connector_model \<Rightarrow> syn_spec \<Rightarrow> nat \<Rightarrow> builder \<Rightarrow> builder" where
  "set_synapse_params k syn_defaults syn_params synapse_indx b =
     set_synapse_params_loop (num_threads k) (other_defaults syn_defaults) syn_params synapse_indx b"

definition set_structural_plasticity_parameters :: "syn_spec list \<Rightarrow> builder \<Rightarrow> exn + builder" where
  "set_structural_plasticity_parameters syn_specs b =
     (if \<not> list_ex (\<lambda>s. pre_synaptic_element s \<noteq> None \<or> post_synaptic_element s \<noteq> None) syn_specs
      then Inr b
      else if length syn_specs > 1 then Inl KernelException
      else (case syn_specs of
              [] \<Rightarrow> Inr b
            | s # ss \<Rightarrow>
                (case (pre_synaptic_element s, post_synaptic_element s) of
                   (Some pre, Some post) \<Rightarrow>
                     Inr (b\<lparr>pre_synaptic_element_name' := pre,
                            post_synaptic_element_name' := post,
                            use_structural_plasticity' := True\<rparr>)
                 | _ \<Rightarrow> Inl BadProperty)))"

text \<open>The resets. A parameter that cannot be reset throws; the parameters before it have been
  reset by then.\<close>

fun reset_each :: "conn_parameter option list \<Rightarrow> exn option \<times> conn_parameter option list" where
  "reset_each [] = (None, [])"
| "reset_each (None # ps) = (case reset_each ps of (r, ps') \<Rightarrow> (r, None # ps'))"
| "reset_each (Some p # ps) =
     (case reset p of
        Inl e \<Rightarrow> (Some e, Some p # ps)
      | Inr p' \<Rightarrow> (case reset_each ps of (r, ps') \<Rightarrow> (r, Some p' # ps')))"

fun reset_named :: "(string \<times> conn_parameter) list \<Rightarrow> exn option \<times> (string \<times> conn_parameter) list" where
  "reset_named [] = (None, [])"
| "reset_named ((n, p) # ps) =
     (case reset p of
        Inl e \<Rightarrow> (Some e, (n, p) # ps)
      | Inr p' \<Rightarrow> (case reset_named ps of (r, ps') \<Rightarrow> (r, (n, p') # ps')))"

fun reset_synapse_params ::
    "(string \<times> conn_parameter) list list \<Rightarrow> exn option \<times> (string \<times> conn_parameter) list list" where
  "reset_synapse_params [] = (None, [])"
| "reset_synapse_params (params # rest) =
     (case reset_named params of
        (Some e, params') \<Rightarrow> (Some e, params' # rest)
      | (None, params') \<Rightarrow>
          (case reset_synapse_params rest of (r, rest') \<Rightarrow> (r, params' # rest')))"

definition reset_weights' :: "builder \<Rightarrow> exn option \<times> builder" where
  "reset_weights' b = (case reset_each (weights' b) of (r, ws) \<Rightarrow> (r, b\<lparr>weights' := ws\<rparr>))"

definition reset_delays' :: "builder \<Rightarrow> exn option \<times> builder" where
  "reset_delays' b = (case reset_each (delays' b) of (r, ds) \<Rightarrow> (r, b\<lparr>delays' := ds\<rparr>))"

text \<open>\<^verbatim>\<open>reset_weights_(); reset_delays_();\<close> and the loop over \<^verbatim>\<open>synapse_params_\<close>,
  as the constructor and \<^verbatim>\<open>connect()\<close> both run them.\<close>

definition reset_all :: "builder \<Rightarrow> exn option \<times> builder" where
  "reset_all b =
     (case reset_weights' b of
        (Some e, b1) \<Rightarrow> (Some e, b1)
      | (None, b1) \<Rightarrow>
          (case reset_delays' b1 of
             (Some e, b2) \<Rightarrow> (Some e, b2)
           | (None, b2) \<Rightarrow>
               (case reset_synapse_params (synapse_params' b2) of
                  (r, sp) \<Rightarrow> (r, b2\<lparr>synapse_params' := sp\<rparr>))))"

fun syn_specs_loop :: "kernel \<Rightarrow> syn_spec list \<Rightarrow> nat \<Rightarrow> builder \<Rightarrow> exn + builder" where
  "syn_specs_loop k [] synapse_indx b = Inr b"
| "syn_specs_loop k (syn_params # rest) synapse_indx b =
     (case set_synapse_model' k syn_params synapse_indx b of
        Inl e \<Rightarrow> Inl e
      | Inr b1 \<Rightarrow>
          (let b2 = set_default_weight_or_delay' k syn_params synapse_indx b1;
               syn_defaults = get_connection_model k (synapse_model_id' b2 ! synapse_indx);
               b3 = set_synapse_params k syn_defaults syn_params synapse_indx b2
           in syn_specs_loop k rest (Suc synapse_indx) b3))"

text \<open>The constructor of \<^verbatim>\<open>ConnBuilder\<close>. The identifier of \<^verbatim>\<open>static_synapse\<close> is
  looked up and then written to \<^verbatim>\<open>synapse_model_id_[ 0 ]\<close>; with an empty list of synapse
  specifications that is a write past the end of an empty vector.\<close>

definition ConnBuilder ::
    "kernel \<Rightarrow> node_collection \<Rightarrow> node_collection \<Rightarrow> conn_spec \<Rightarrow> syn_spec list \<Rightarrow> exn + builder" where
  "ConnBuilder k sources targets conn_spec syn_specs =
     (let n = length syn_specs;
          b0 = \<lparr>sources' = sources, targets' = targets,
                allow_autapses' = (case cs_allow_autapses conn_spec of Some v \<Rightarrow> v | None \<Rightarrow> True),
                allow_multapses' = (case cs_allow_multapses conn_spec of Some v \<Rightarrow> v | None \<Rightarrow> True),
                make_symmetric' = (case cs_make_symmetric conn_spec of Some v \<Rightarrow> v | None \<Rightarrow> False),
                creates_symmetric_connections' = False,
                exceptions_raised' = replicate (num_threads k) None,
                use_structural_plasticity' = False,
                parameters_requiring_skipping' = [],
                synapse_model_id' = replicate n 0,
                default_weight' = replicate n False,
                default_delay' = replicate n False,
                default_weight_and_delay' = replicate n False,
                weights' = replicate n None,
                delays' = replicate n None,
                synapse_params' = replicate n [],
                pre_synaptic_element_name' = [],
                post_synaptic_element_name' = [],
                rng_pos = (\<lambda>r. 0),
                events = []\<rparr>
      in (case get_synapse_model_id k ''static_synapse'' of
            Inl e \<Rightarrow> Inl e
          | Inr static_id \<Rightarrow>
         if n = 0 then Inl UndefinedBehaviour
         else
         (case syn_specs_loop k syn_specs 0 (b0\<lparr>synapse_model_id' := (synapse_model_id' b0)[0 := static_id]\<rparr>) of
            Inl e \<Rightarrow> Inl e
          | Inr b1 \<Rightarrow>
         (case set_structural_plasticity_parameters syn_specs b1 of
            Inl e \<Rightarrow> Inl e
          | Inr b2 \<Rightarrow>
         (case (if make_symmetric' b2 then reset_all b2 else (None, b2)) of
            (Some e, b3) \<Rightarrow> Inl e
          | (None, b3) \<Rightarrow>
              if \<not> (valid (sources' b3) \<and> valid (targets' b3)) then Inl KernelException
              else Inr b3)))))"

text \<open>\<^verbatim>\<open>loop_over_targets_\<close>.\<close>

definition loop_over_targets' :: "kernel \<Rightarrow> builder \<Rightarrow> bool" where
  "loop_over_targets' k b =
     (size_nc (targets' b) < node_manager_size k \<or> \<not> is_range (targets' b)
      \<or> length (parameters_requiring_skipping' b) > 0)"

subsection \<open>The constructors of the rules\<close>

text \<open>A rule class adds members to \<^verbatim>\<open>ConnBuilder\<close>; an object of the class is the pair of
  the base object and the added members.\<close>

definition OneToOneBuilder ::
    "kernel \<Rightarrow> node_collection \<Rightarrow> node_collection \<Rightarrow> conn_spec \<Rightarrow> syn_spec list \<Rightarrow> exn + builder" where
  "OneToOneBuilder k sources targets conn_spec syn_specs =
     (case ConnBuilder k sources targets conn_spec syn_specs of
        Inl e \<Rightarrow> Inl e
      | Inr b \<Rightarrow>
          if size_nc (sources' b) \<noteq> size_nc (targets' b) then Inl DimensionMismatch
          else Inr b)"

text \<open>\<^verbatim>\<open>AllToAllBuilder\<close> declares no constructor body in this file: it is the base
  constructor.\<close>

definition AllToAllBuilder ::
    "kernel \<Rightarrow> node_collection \<Rightarrow> node_collection \<Rightarrow> conn_spec \<Rightarrow> syn_spec list \<Rightarrow> exn + builder" where
  "AllToAllBuilder k sources targets conn_spec syn_specs =
     ConnBuilder k sources targets conn_spec syn_specs"

text \<open>The comparison \<^verbatim>\<open>value > 0.9 * n_sources\<close> only selects a warning; it is taken on
  the integers.\<close>

definition FixedInDegreeBuilder ::
    "kernel \<Rightarrow> node_collection \<Rightarrow> node_collection \<Rightarrow> conn_spec \<Rightarrow> degree_spec \<Rightarrow> syn_spec list
     \<Rightarrow> exn + builder \<times> parameter" where
  "FixedInDegreeBuilder k sources targets conn_spec indegree syn_specs =
     (case ConnBuilder k sources targets conn_spec syn_specs of
        Inl e \<Rightarrow> Inl e
      | Inr b \<Rightarrow>
          (let n_sources = int (size_nc (sources' b)) in
           if n_sources = 0 then Inl BadProperty
           else (case indegree of
                   ParameterDegree pd \<Rightarrow> Inr (b, pd)
                 | ScalarDegree v \<Rightarrow>
                     if \<not> allow_multapses' b \<and> v > n_sources then Inl BadProperty
                     else if \<not> allow_multapses' b \<and> v = n_sources \<and> \<not> allow_autapses' b
                     then Inr (b\<lparr>events := events b @ [Warning ''Multapses and autapses prohibited.'']\<rparr>,
                               ConstantParameter (of_int v))
                     else (let b1 = (if \<not> allow_multapses' b \<and> 10 * v > 9 * n_sources
                                     then b\<lparr>events := events b @ [Warning ''Expect long connecting times!'']\<rparr>
                                     else b)
                           in if v < 0 then Inl BadProperty
                              else Inr (b1, ConstantParameter (of_int v))))))"

definition FixedOutDegreeBuilder ::
    "kernel \<Rightarrow> node_collection \<Rightarrow> node_collection \<Rightarrow> conn_spec \<Rightarrow> degree_spec \<Rightarrow> syn_spec list
     \<Rightarrow> exn + builder \<times> parameter" where
  "FixedOutDegreeBuilder k sources targets conn_spec outdegree syn_specs =
     (case ConnBuilder k sources targets conn_spec syn_specs of
        Inl e \<Rightarrow> Inl e
      | Inr b \<Rightarrow>
          (let n_targets = int (size_nc (targets' b)) in
           if n_targets = 0 then Inl BadProperty
           else (case outdegree of
                   ParameterDegree pd \<Rightarrow> Inr (b, pd)
                 | ScalarDegree v \<Rightarrow>
                     if \<not> allow_multapses' b \<and> v > n_targets then Inl BadProperty
                     else if \<not> allow_multapses' b \<and> v = n_targets \<and> \<not> allow_autapses' b
                     then Inr (b\<lparr>events := events b @ [Warning ''Multapses and autapses prohibited.'']\<rparr>,
                               ConstantParameter (of_int v))
                     else (let b1 = (if \<not> allow_multapses' b \<and> 10 * v > 9 * n_targets
                                     then b\<lparr>events := events b @ [Warning ''Expect long connecting times!'']\<rparr>
                                     else b)
                           in if v < 0 then Inl BadProperty
                              else Inr (b1, ConstantParameter (of_int v))))))"

text \<open>\<^verbatim>\<open>N_\<close> is a \<^verbatim>\<open>long\<close>, the sizes are \<^verbatim>\<open>size_t\<close>: the product of the sizes is
  taken modulo \<open>2 ^ 64\<close> and then read as a signed number.\<close>

type_synonym long = "64 word"

definition size_t :: "nat \<Rightarrow> 64 word" where
  "size_t n = word_of_nat n"

definition FixedTotalNumberBuilder ::
    "kernel \<Rightarrow> node_collection \<Rightarrow> node_collection \<Rightarrow> conn_spec \<Rightarrow> long \<Rightarrow> syn_spec list
     \<Rightarrow> exn + builder \<times> long" where
  "FixedTotalNumberBuilder k sources targets conn_spec N syn_specs =
     (case ConnBuilder k sources targets conn_spec syn_specs of
        Inl e \<Rightarrow> Inl e
      | Inr b \<Rightarrow>
          if \<not> allow_multapses' b
             \<and> sint N > sint (size_t (size_nc (sources' b)) * size_t (size_nc (targets' b)))
          then Inl BadProperty
          else if sint N < 0 then Inl BadProperty
          else if \<not> allow_multapses' b then Inl NotImplemented
          else Inr (b, N))"

definition BernoulliBuilder ::
    "kernel \<Rightarrow> node_collection \<Rightarrow> node_collection \<Rightarrow> conn_spec \<Rightarrow> prob_spec \<Rightarrow> syn_spec list
     \<Rightarrow> exn + builder \<times> parameter" where
  "BernoulliBuilder k sources targets conn_spec p syn_specs =
     (case ConnBuilder k sources targets conn_spec syn_specs of
        Inl e \<Rightarrow> Inl e
      | Inr b \<Rightarrow>
          (case p of
             ParameterProb pd \<Rightarrow> Inr (b, pd)
           | ScalarProb v \<Rightarrow>
               if v < 0 \<or> 1 < v then Inl BadProperty
               else Inr (b, ConstantParameter v)))"

definition SymmetricBernoulliBuilder ::
    "kernel \<Rightarrow> node_collection \<Rightarrow> node_collection \<Rightarrow> conn_spec \<Rightarrow> real \<Rightarrow> syn_spec list
     \<Rightarrow> exn + builder \<times> real" where
  "SymmetricBernoulliBuilder k sources targets conn_spec p syn_specs =
     (case ConnBuilder k sources targets conn_spec syn_specs of
        Inl e \<Rightarrow> Inl e
      | Inr b0 \<Rightarrow>
          (let b = b0\<lparr>creates_symmetric_connections' := True\<rparr> in
           if p < 0 \<or> 1 \<le> p then Inl BadProperty
           else if \<not> allow_multapses' b then Inl BadProperty
           else if allow_autapses' b then Inl BadProperty
           else if \<not> make_symmetric' b then Inl BadProperty
           else Inr (b, p)))"

text \<open>The tripartite rule: the base object, the two auxiliary builders and the members of
  the class. The keys \<^verbatim>\<open>p_primary\<close>, \<^verbatim>\<open>p_third_if_primary\<close>, \<^verbatim>\<open>pool_size\<close> and
  \<^verbatim>\<open>pool_type\<close> of the rule specification are optional. The members are initialised in
  the order of the initialiser list; the quotient of the sizes is taken there, before any
  check of the body. The product of a size and the pool size is a \<^verbatim>\<open>size_t\<close>.\<close>

record tripartite_spec =
  ts_p_primary :: "real option"
  ts_p_third_if_primary :: "real option"
  ts_pool_size :: "int option"
  ts_pool_type :: "string option"

record tripartite_builder =
  primary :: builder
  third' :: node_collection
  third_in_builder' :: builder
  third_out_builder' :: builder
  p_primary' :: real
  p_third_if_primary' :: real
  random_pool' :: bool
  pool_size' :: int
  targets_per_third' :: nat

definition TripartiteBernoulliWithPoolBuilder ::
    "kernel \<Rightarrow> node_collection \<Rightarrow> node_collection \<Rightarrow> node_collection \<Rightarrow> conn_spec \<Rightarrow> tripartite_spec
     \<Rightarrow> syn_spec list \<Rightarrow> syn_spec list \<Rightarrow> syn_spec list \<Rightarrow> exn + tripartite_builder" where
  "TripartiteBernoulliWithPoolBuilder k sources targets third conn_spec ts
       syn_specs_primary syn_specs_third_in syn_specs_third_out =
     (case ConnBuilder k sources targets conn_spec syn_specs_primary of
        Inl e \<Rightarrow> Inl e
      | Inr b \<Rightarrow>
     (case ConnBuilder k sources third conn_spec syn_specs_third_in of
        Inl e \<Rightarrow> Inl e
      | Inr b_in \<Rightarrow>
     (case ConnBuilder k third targets conn_spec syn_specs_third_out of
        Inl e \<Rightarrow> Inl e
      | Inr b_out \<Rightarrow>
          if size_nc third = 0 then Inl UndefinedBehaviour
          else
            (let p_primary = (case ts_p_primary ts of Some v \<Rightarrow> v | None \<Rightarrow> 1);
                 p_third_if_primary = (case ts_p_third_if_primary ts of Some v \<Rightarrow> v | None \<Rightarrow> 1);
                 pool_size = (case ts_pool_size ts of Some v \<Rightarrow> v | None \<Rightarrow> int (size_nc third));
                 obj = (\<lambda>random_pool.
                          \<lparr>primary = b, third' = third, third_in_builder' = b_in,
                           third_out_builder' = b_out, p_primary' = p_primary,
                           p_third_if_primary' = p_third_if_primary, random_pool' = random_pool,
                           pool_size' = pool_size,
                           targets_per_third' = size_nc targets div size_nc third\<rparr>);
                 checks = (\<lambda>random_pool.
                    if p_primary < 0 \<or> 1 < p_primary then Inl BadProperty
                    else if p_third_if_primary < 0 \<or> 1 < p_third_if_primary then Inl BadProperty
                    else if pool_size < 1 \<or> int (size_nc third) < pool_size then Inl BadProperty
                    else if \<not> (random_pool
                                \<or> (size_nc targets * nat pool_size) mod 2 ^ 64 = size_nc third
                                \<or> (pool_size = 1 \<and> size_nc targets mod size_nc third = 0))
                    then Inl BadProperty
                    else Inr (obj random_pool))
             in (case ts_pool_type ts of
                   None \<Rightarrow> checks True
                 | Some pool_type \<Rightarrow>
                     if pool_type = ''random'' then checks True
                     else if pool_type = ''block'' then checks False
                     else Inl BadProperty)))))"

subsection \<open>Random streams and parameter values\<close>

text \<open>Modelled from the spec: the random number service is not among the sources. The three
  accessors \<^verbatim>\<open>get_rank_synced_rng()\<close>, \<^verbatim>\<open>get_vp_synced_rng(tid)\<close> and
  \<^verbatim>\<open>get_vp_specific_rng(tid)\<close> give the streams \<open>RankSynced\<close>, \<open>VpSynced tid\<close> and
  \<open>VpSpecific tid\<close>. A draw takes the next outcome of the stream and is recorded.
  \<^verbatim>\<open>ulrand(n)\<close> gives a number below \<open>n\<close>, a binomial draw over \<open>n\<close> trials a number up
  to \<open>n\<close>; which one is the stream's outcome.\<close>

definition draw :: "kernel \<Rightarrow> rng_id \<Rightarrow> builder \<Rightarrow> nat \<times> builder" where
  "draw k r b =
     (rng_outcomes k r (rng_pos b r),
      b\<lparr>rng_pos := (rng_pos b)(r := Suc (rng_pos b r)), events := events b @ [Draw r]\<rparr>)"

definition ulrand :: "kernel \<Rightarrow> rng_id \<Rightarrow> nat \<Rightarrow> builder \<Rightarrow> nat \<times> builder" where
  "ulrand k r n b = (case draw k r b of (v, b1) \<Rightarrow> (v mod n, b1))"

definition bino_dist :: "kernel \<Rightarrow> rng_id \<Rightarrow> nat \<Rightarrow> builder \<Rightarrow> nat \<times> builder" where
  "bino_dist k r n b = (case draw k r b of (v, b1) \<Rightarrow> (v mod Suc n, b1))"



text \<open>\<^verbatim>\<open>ConnParameter::value_double\<close> and \<^verbatim>\<open>value_int\<close>, for the thread whose
  cursor is read and the stream that is handed in: the parameter after the call and the
  simulator after the call.\<close>

fun value_of :: "kernel \<Rightarrow> nat \<Rightarrow> rng_id \<Rightarrow> conn_parameter \<Rightarrow> builder \<Rightarrow> conn_parameter \<times> builder" where
  "value_of k tid r (ScalarParameter l) b = (ScalarParameter l, b)"
| "value_of k tid r (DistributionParameter c) b = (DistributionParameter c, snd (draw k r b))"
| "value_of k tid r (ArrayParameter l n cs) b = (skip tid 1 (ArrayParameter l n cs), b)"

fun update_params ::
    "kernel \<Rightarrow> nat \<Rightarrow> rng_id \<Rightarrow> (string \<times> conn_parameter) list \<Rightarrow> builder
     \<Rightarrow> (string \<times> conn_parameter) list \<times> builder" where
  "update_params k tid r [] b = ([], b)"
| "update_params k tid r (np # ps) b =
     (case value_of k tid r (snd np) b of
        (p', b1) \<Rightarrow> (case update_params k tid r ps b1 of (ps', b2) \<Rightarrow> ((fst np, p') # ps', b2)))"

definition update_param_dict' :: "kernel \<Rightarrow> nat \<Rightarrow> rng_id \<Rightarrow> nat \<Rightarrow> builder \<Rightarrow> builder" where
  "update_param_dict' k target_thread r synapse_indx b =
     (case update_params k target_thread r (synapse_params' b ! synapse_indx) b of
        (ps, b1) \<Rightarrow> b1\<lparr>synapse_params' := (synapse_params' b1)[synapse_indx := ps]\<rparr>)"

text \<open>The value of \<^verbatim>\<open>delays_[ synapse_indx ]\<close> and of \<^verbatim>\<open>weights_[ synapse_indx ]\<close>; the
  pointer is null when the constructor has not set it.\<close>

definition delay_value :: "kernel \<Rightarrow> nat \<Rightarrow> rng_id \<Rightarrow> nat \<Rightarrow> builder \<Rightarrow> exn option \<times> builder" where
  "delay_value k target_thread r synapse_indx b =
     (case delays' b ! synapse_indx of
        None \<Rightarrow> (Some UndefinedBehaviour, b)
      | Some d \<Rightarrow>
          (case value_of k target_thread r d b of
             (d', b1) \<Rightarrow> (None, b1\<lparr>delays' := (delays' b1)[synapse_indx := Some d']\<rparr>)))"

definition weight_value :: "kernel \<Rightarrow> nat \<Rightarrow> rng_id \<Rightarrow> nat \<Rightarrow> builder \<Rightarrow> exn option \<times> builder" where
  "weight_value k target_thread r synapse_indx b =
     (case weights' b ! synapse_indx of
        None \<Rightarrow> (Some UndefinedBehaviour, b)
      | Some w \<Rightarrow>
          (case value_of k target_thread r w b of
             (w', b1) \<Rightarrow> (None, b1\<lparr>weights' := (weights' b1)[synapse_indx := Some w']\<rparr>)))"

subsection \<open>\<^verbatim>\<open>single_connect_\<close> and \<^verbatim>\<open>skip_conn_parameter_\<close>\<close>

text \<open>The values that \<^verbatim>\<open>single_connect_\<close> asks for after the scratch dictionary of a
  synapse type is filled: none, the delay, the weight, or the delay and then the weight.\<close>

definition synapse_values :: "kernel \<Rightarrow> nat \<Rightarrow> rng_id \<Rightarrow> nat \<Rightarrow> builder \<Rightarrow> exn option \<times> builder" where
  "synapse_values k target_thread r synapse_indx b1 =
     (if default_weight_and_delay' b1 ! synapse_indx then (None, b1)
      else if default_weight' b1 ! synapse_indx
      then delay_value k target_thread r synapse_indx b1
      else if default_delay' b1 ! synapse_indx
      then weight_value k target_thread r synapse_indx b1
      else (case delay_value k target_thread r synapse_indx b1 of
              (Some e, b2) \<Rightarrow> (Some e, b2)
            | (None, b2) \<Rightarrow> weight_value k target_thread r synapse_indx b2))"

text \<open>The loop of \<^verbatim>\<open>single_connect_\<close> over the synapse types. The call of the connection
  storage is the event \<open>Connect\<close>; the storage is an external collaborator and is taken not
  to throw.\<close>

fun single_connect_loop ::
    "kernel \<Rightarrow> nat \<Rightarrow> node \<Rightarrow> nat \<Rightarrow> rng_id \<Rightarrow> nat list \<Rightarrow> builder \<Rightarrow> exn option \<times> builder" where
  "single_connect_loop k snode_id target target_thread r [] b = (None, b)"
| "single_connect_loop k snode_id target target_thread r (synapse_indx # rest) b =
     (case synapse_values k target_thread r synapse_indx
             (update_param_dict' k target_thread r synapse_indx b) of
        (Some e, b3) \<Rightarrow> (Some e, b3)
      | (None, b3) \<Rightarrow>
          single_connect_loop k snode_id target target_thread r rest
            (b3\<lparr>events := events b3 @
                  [Connect snode_id (node_id target) target_thread
                     (synapse_model_id' b3 ! synapse_indx)]\<rparr>))"

text \<open>\<^verbatim>\<open>requires_proxies()\<close> is a virtual method declared outside the sources; it is an
  argument.\<close>

definition single_connect' ::
    "kernel \<Rightarrow> bool \<Rightarrow> nat \<Rightarrow> node \<Rightarrow> nat \<Rightarrow> rng_id \<Rightarrow> builder \<Rightarrow> exn option \<times> builder" where
  "single_connect' k requires_proxies snode_id target target_thread r b =
     (if requires_proxies \<and> \<not> has_proxies target then (Some IllegalConnection, b)
      else single_connect_loop k snode_id target target_thread r
             [0..<length (synapse_params' b)] b)"

text \<open>Modelled from the spec: \<^verbatim>\<open>skip_conn_parameter_\<close> is defined outside the sources. It
  advances every registered parameter by the count, for the given thread.\<close>

fun skip_ref :: "nat \<Rightarrow> nat \<Rightarrow> param_ref \<Rightarrow> builder \<Rightarrow> builder" where
  "skip_ref tid n (WeightRef i) b =
     b\<lparr>weights' := (weights' b)[i := map_option (skip tid n) (weights' b ! i)]\<rparr>"
| "skip_ref tid n (DelayRef i) b =
     b\<lparr>delays' := (delays' b)[i := map_option (skip tid n) (delays' b ! i)]\<rparr>"
| "skip_ref tid n (SynapseParamRef i name) b =
     b\<lparr>synapse_params' :=
         (synapse_params' b)
           [i := map (\<lambda>np. if fst np = name then (fst np, skip tid n (snd np)) else np)
                   (synapse_params' b ! i)]\<rparr>"

definition skip_conn_parameter' :: "nat \<Rightarrow> nat \<Rightarrow> builder \<Rightarrow> builder" where
  "skip_conn_parameter' tid n_skip b =
     fold (skip_ref tid n_skip) (parameters_requiring_skipping' b) b"

subsection \<open>Parallel regions\<close>

text \<open>A slot of \<^verbatim>\<open>exceptions_raised_\<close> is empty or holds a
  \<^verbatim>\<open>WrappedThreadException\<close>; \<open>Some e\<close> is the slot that holds the one made from \<open>e\<close>. The
  handler of a worker catches what the body throws and fills the slot of the thread with
  \<^verbatim>\<open>exceptions_raised_.at( tid )\<close>; without a slot of that number \<^verbatim>\<open>at\<close> throws inside
  the handler, and nothing catches that in the region.\<close>

definition run_thread ::
    "(nat \<Rightarrow> builder \<Rightarrow> outcome \<times> builder) \<Rightarrow> nat \<Rightarrow> builder \<Rightarrow> outcome \<times> builder" where
  "run_thread body tid b =
     (case body tid b of
        (Raised e, b1) \<Rightarrow>
          if e = UndefinedBehaviour then (Raised e, b1)
          else if tid < length (exceptions_raised' b1)
          then (Returned, b1\<lparr>exceptions_raised' := (exceptions_raised' b1)[tid := Some e]\<rparr>)
          else (Terminated, b1)
      | (oc, b1) \<Rightarrow> (oc, b1))"

text \<open>The region ends when all threads have ended: it is still running when one of them is,
  and the other threads have run all the same.\<close>

fun parallel_region ::
    "(nat \<Rightarrow> builder \<Rightarrow> outcome \<times> builder) \<Rightarrow> nat list \<Rightarrow> builder \<Rightarrow> outcome \<times> builder" where
  "parallel_region body [] b = (Returned, b)"
| "parallel_region body (tid # tids) b =
     (case run_thread body tid b of
        (oc, b1) \<Rightarrow>
          (case parallel_region body tids b1 of
             (oc', b2) \<Rightarrow> (if oc = Returned then oc' else oc, b2)))"

definition omp_parallel ::
    "kernel \<Rightarrow> (nat \<Rightarrow> builder \<Rightarrow> outcome \<times> builder) \<Rightarrow> builder \<Rightarrow> outcome \<times> builder" where
  "omp_parallel k body b = parallel_region body [0..<num_threads k] b"

subsection \<open>The one-to-one rule\<close>

fun OneToOne_target_loop ::
    "kernel \<Rightarrow> bool \<Rightarrow> nat \<Rightarrow> nat list \<Rightarrow> nat list \<Rightarrow> builder \<Rightarrow> outcome \<times> builder" where
  "OneToOne_target_loop k rp tid [] source_it b = (Returned, b)"
| "OneToOne_target_loop k rp tid (tnode_id # target_it) [] b = (Raised UndefinedBehaviour, b)"
| "OneToOne_target_loop k rp tid (tnode_id # target_it) (snode_id # source_it) b =
     (if snode_id = tnode_id \<and> \<not> allow_autapses' b
      then OneToOne_target_loop k rp tid target_it source_it b
      else (let target = get_node_or_proxy k tnode_id tid in
            if is_proxy target
            then OneToOne_target_loop k rp tid target_it source_it (skip_conn_parameter' tid 1 b)
            else (case single_connect' k rp snode_id target tid (VpSpecific tid) b of
                    (Some e, b1) \<Rightarrow> (Raised e, b1)
                  | (None, b1) \<Rightarrow> OneToOne_target_loop k rp tid target_it source_it b1)))"

fun OneToOne_local_loop ::
    "kernel \<Rightarrow> bool \<Rightarrow> nat \<Rightarrow> node list \<Rightarrow> builder \<Rightarrow> outcome \<times> builder" where
  "OneToOne_local_loop k rp tid [] b = (Returned, b)"
| "OneToOne_local_loop k rp tid (n # ns) b =
     (case get_lid (targets' b) (node_id n) of
        None \<Rightarrow> OneToOne_local_loop k rp tid ns b
      | Some lid \<Rightarrow>
          if lid \<ge> size_nc (sources' b) then (Raised OutOfRange, b)
          else if \<not> allow_autapses' b \<and> node_ids (sources' b) ! lid = node_id n
          then OneToOne_local_loop k rp tid ns b
          else (case single_connect' k rp (node_ids (sources' b) ! lid) n tid (VpSpecific tid) b of
                  (Some e, b1) \<Rightarrow> (Raised e, b1)
                | (None, b1) \<Rightarrow> OneToOne_local_loop k rp tid ns b1))"

definition OneToOne_body :: "kernel \<Rightarrow> bool \<Rightarrow> nat \<Rightarrow> builder \<Rightarrow> outcome \<times> builder" where
  "OneToOne_body k rp tid b =
     (if loop_over_targets' k b
      then OneToOne_target_loop k rp tid (node_ids (targets' b)) (node_ids (sources' b)) b
      else OneToOne_local_loop k rp tid (local_nodes k tid) b)"

definition OneToOne_connect' :: "kernel \<Rightarrow> bool \<Rightarrow> builder \<Rightarrow> outcome \<times> builder" where
  "OneToOne_connect' k rp b = omp_parallel k (OneToOne_body k rp) b"

subsection \<open>\<^verbatim>\<open>connect()\<close> and \<^verbatim>\<open>disconnect()\<close>\<close>

text \<open>The virtual methods of a rule. They are declared outside the sources and are arguments
  of \<^verbatim>\<open>connect()\<close> and \<^verbatim>\<open>disconnect()\<close>.\<close>

record rule =
  supports_symmetric :: bool
  is_symmetric :: "builder \<Rightarrow> bool"
  connect' :: "builder \<Rightarrow> outcome \<times> builder"
  sp_connect' :: "builder \<Rightarrow> outcome \<times> builder"
  disconnect' :: "builder \<Rightarrow> outcome \<times> builder"
  sp_disconnect' :: "builder \<Rightarrow> outcome \<times> builder"

definition swap_sources_targets :: "builder \<Rightarrow> builder" where
  "swap_sources_targets b = b\<lparr>sources' := targets' b, targets' := sources' b\<rparr>"

text \<open>The loop at the end of \<^verbatim>\<open>connect()\<close> and \<^verbatim>\<open>disconnect()\<close>. The exception
  thrown is a copy of the one in the slot.\<close>

fun rethrow_loop :: "nat list \<Rightarrow> exn option list \<Rightarrow> outcome" where
  "rethrow_loop [] slots = Returned"
| "rethrow_loop (tid # tids) slots =
     (if tid < length slots
      then (case slots ! tid of
              Some e \<Rightarrow> Raised (WrappedThreadException e)
            | None \<Rightarrow> rethrow_loop tids slots)
      else Raised OutOfRange)"

definition check_exceptions_raised :: "kernel \<Rightarrow> builder \<Rightarrow> outcome" where
  "check_exceptions_raised k b = rethrow_loop [0..<num_threads k] (exceptions_raised' b)"

text \<open>\<^verbatim>\<open>connect()\<close> up to the loop over the slots.\<close>

definition connect_calls :: "kernel \<Rightarrow> rule \<Rightarrow> builder \<Rightarrow> outcome \<times> builder" where
  "connect_calls k r b =
     (if list_ex (\<lambda>synapse_model_id.
            requires_symmetric (get_connection_model k synapse_model_id)
            \<and> \<not> (is_symmetric r b \<or> make_symmetric' b)) (synapse_model_id' b)
      then (Raised BadProperty, b)
      else if make_symmetric' b \<and> \<not> supports_symmetric r then (Raised NotImplemented, b)
      else if use_structural_plasticity' b
      then (if make_symmetric' b then (Raised NotImplemented, b) else sp_connect' r b)
      else (case connect' r b of
              (Returned, b1) \<Rightarrow>
                if make_symmetric' b1 \<and> \<not> creates_symmetric_connections' b1
                then (case reset_all b1 of
                        (Some e, b2) \<Rightarrow> (Raised e, b2)
                      | (None, b2) \<Rightarrow>
                          (case connect' r (swap_sources_targets b2) of
                             (Returned, b3) \<Rightarrow> (Returned, swap_sources_targets b3)
                           | (oc, b3) \<Rightarrow> (oc, b3)))
                else (Returned, b1)
            | (oc, b1) \<Rightarrow> (oc, b1)))"

definition connect :: "kernel \<Rightarrow> rule \<Rightarrow> builder \<Rightarrow> outcome \<times> builder" where
  "connect k r b =
     (case connect_calls k r b of
        (Returned, b1) \<Rightarrow> (check_exceptions_raised k b1, b1)
      | (oc, b1) \<Rightarrow> (oc, b1))"

definition disconnect_calls :: "rule \<Rightarrow> builder \<Rightarrow> outcome \<times> builder" where
  "disconnect_calls r b =
     (if use_structural_plasticity' b then sp_disconnect' r b else disconnect' r b)"

definition disconnect :: "kernel \<Rightarrow> rule \<Rightarrow> builder \<Rightarrow> outcome \<times> builder" where
  "disconnect k r b =
     (case disconnect_calls r b of
        (Returned, b1) \<Rightarrow> (check_exceptions_raised k b1, b1)
      | (oc, b1) \<Rightarrow> (oc, b1))"

subsection \<open>The fixed in-degree rule\<close>









subsection \<open>The symmetric Bernoulli rule\<close>

text \<open>The loop that draws the in-degree again while it is not below the number of sources, and
  the loop that draws sources until \<open>indegree\<close> of them are chosen; each makes at most \<open>fuel\<close>
  draws. The stream is the one stream that \<^verbatim>\<open>connect_\<close> obtains.\<close>

fun SymmetricBernoulli_indegree ::
    "kernel \<Rightarrow> nat \<Rightarrow> rng_id \<Rightarrow> builder \<Rightarrow> nat option \<times> builder" where
  "SymmetricBernoulli_indegree k 0 r b = (None, b)"
| "SymmetricBernoulli_indegree k (Suc fuel) r b =
     (case bino_dist k r (size_nc (sources' b)) b of
        (indegree, b1) \<Rightarrow>
          if indegree \<ge> size_nc (sources' b1) then SymmetricBernoulli_indegree k fuel r b1
          else (Some indegree, b1))"

fun SymmetricBernoulli_sources ::
    "kernel \<Rightarrow> nat \<Rightarrow> bool \<Rightarrow> nat \<Rightarrow> rng_id \<Rightarrow> nat \<Rightarrow> node \<Rightarrow> nat \<Rightarrow> nat \<Rightarrow> nat list \<Rightarrow> builder
     \<Rightarrow> outcome \<times> builder" where
  "SymmetricBernoulli_sources k 0 rp tid r tnode_id target i indegree previous_snode_ids b =
     (if i < indegree then (Running, b) else (Returned, b))"
| "SymmetricBernoulli_sources k (Suc fuel) rp tid r tnode_id target i indegree previous_snode_ids b =
     (if \<not> i < indegree then (Returned, b)
      else (case ulrand k r (size_nc (sources' b)) b of
              (s_id, b1) \<Rightarrow>
                if node_ids (sources' b1) ! s_id = tnode_id
                   \<or> node_ids (sources' b1) ! s_id \<in> set previous_snode_ids
                then SymmetricBernoulli_sources k fuel rp tid r tnode_id target i indegree
                       previous_snode_ids b1
                else (case (if \<not> is_proxy target
                            then single_connect' k rp (node_ids (sources' b1) ! s_id) target tid r b1
                            else (None, b1)) of
                        (Some e, b2) \<Rightarrow> (Raised e, b2)
                      | (None, b2) \<Rightarrow>
                          (case (if \<not> is_proxy (get_node_or_proxy k (node_ids (sources' b1) ! s_id) tid)
                                 then single_connect' k rp tnode_id
                                        (get_node_or_proxy k (node_ids (sources' b1) ! s_id) tid) tid r b2
                                 else (None, b2)) of
                             (Some e, b3) \<Rightarrow> (Raised e, b3)
                           | (None, b3) \<Rightarrow>
                               SymmetricBernoulli_sources k fuel rp tid r tnode_id target (Suc i) indegree
                                 (node_ids (sources' b1) ! s_id # previous_snode_ids) b3))))"

fun SymmetricBernoulli_target_loop ::
    "kernel \<Rightarrow> nat \<Rightarrow> bool \<Rightarrow> nat \<Rightarrow> rng_id \<Rightarrow> nat list \<Rightarrow> builder \<Rightarrow> outcome \<times> builder" where
  "SymmetricBernoulli_target_loop k fuel rp tid r [] b = (Returned, b)"
| "SymmetricBernoulli_target_loop k fuel rp tid r (tnode_id # rest) b =
     (case SymmetricBernoulli_indegree k fuel r b of
        (None, b1) \<Rightarrow> (Running, b1)
      | (Some indegree, b1) \<Rightarrow>
          (case SymmetricBernoulli_sources k fuel rp tid r tnode_id (get_node_or_proxy k tnode_id tid)
                  0 indegree [] b1 of
             (Returned, b2) \<Rightarrow> SymmetricBernoulli_target_loop k fuel rp tid r rest b2
           | (oc, b2) \<Rightarrow> (oc, b2)))"

definition SymmetricBernoulli_body :: "kernel \<Rightarrow> nat \<Rightarrow> bool \<Rightarrow> nat \<Rightarrow> builder \<Rightarrow> outcome \<times> builder" where
  "SymmetricBernoulli_body k fuel rp tid b =
     SymmetricBernoulli_target_loop k fuel rp tid (VpSynced tid) (node_ids (targets' b)) b"

definition SymmetricBernoulli_connect' :: "kernel \<Rightarrow> nat \<Rightarrow> bool \<Rightarrow> builder \<Rightarrow> outcome \<times> builder" where
  "SymmetricBernoulli_connect' k fuel rp b = omp_parallel k (SymmetricBernoulli_body k fuel rp) b"

subsection \<open>The kinds of random streams\<close>

text \<open>Modelled from the spec: the spec knows two random resources, the rank-synchronized one
  (\<^verbatim>\<open>rank_synced_rng(thread)\<close>: the same sequence on every rank, consumed in the same order)
  and the one of a virtual process (\<^verbatim>\<open>vp_specific_rng(thread)\<close>). The streams of
  \<^verbatim>\<open>get_rank_synced_rng()\<close> and of \<^verbatim>\<open>get_vp_synced_rng(tid)\<close>, which gives the same
  sequence on all threads, are of the first kind, those of \<^verbatim>\<open>get_vp_specific_rng(tid)\<close> of
  the second.\<close>

fun rank_synchronized :: "rng_id \<Rightarrow> bool" where
  "rank_synchronized RankSynced = True"
| "rank_synchronized (VpSynced tid) = True"
| "rank_synchronized (VpSpecific tid) = False"

section \<open>Notions for the statements and proofs\<close>

text \<open>The members that only the constructor of the base class and the rule itself set.\<close>

definition frame ::
    "builder \<Rightarrow> node_collection \<times> node_collection \<times> bool \<times> bool \<times> bool \<times> bool
       \<times> exn option list \<times> event list" where
  "frame b = (sources' b, targets' b, allow_autapses' b, allow_multapses' b, make_symmetric' b,
              creates_symmetric_connections' b, exceptions_raised' b, events b)"

text \<open>The pool size of a tripartite specification: the one given, or the size of the third
  population.\<close>

definition effective_pool_size :: "tripartite_spec \<Rightarrow> node_collection \<Rightarrow> int" where
  "effective_pool_size ts third = (case ts_pool_size ts of Some v \<Rightarrow> v | None \<Rightarrow> int (size_nc third))"

text \<open>What the body of a worker leaves as it is: every member but the parameter objects
  themselves (of which it keeps which pointers are null and how many synapse types there
  are), the slots and the simulator.\<close>

definition shape ::
    "builder \<Rightarrow> (node_collection \<times> node_collection \<times> bool \<times> bool \<times> bool \<times> bool \<times> bool)
       \<times> (param_ref list \<times> nat list \<times> bool list \<times> bool list \<times> bool list)
       \<times> (bool list \<times> bool list \<times> nat)" where
  "shape b =
     ((sources' b, targets' b, allow_autapses' b, allow_multapses' b, make_symmetric' b,
       creates_symmetric_connections' b, use_structural_plasticity' b),
      (parameters_requiring_skipping' b, synapse_model_id' b, default_weight' b, default_delay' b,
       default_weight_and_delay' b),
      (map (\<lambda>w. w = None) (weights' b), map (\<lambda>d. d = None) (delays' b),
       length (synapse_params' b)))"

text \<open>The pointers that \<^verbatim>\<open>single_connect_\<close> dereferences are set.\<close>

definition params_present :: "builder \<Rightarrow> bool" where
  "params_present b =
     (let n = length (synapse_params' b) in
      length (weights' b) = n \<and> length (delays' b) = n
      \<and> (\<forall>i<n. \<not> default_weight_and_delay' b ! i \<longrightarrow>
            (default_weight' b ! i \<longrightarrow> delays' b ! i \<noteq> None)
            \<and> (\<not> default_weight' b ! i \<and> default_delay' b ! i \<longrightarrow> weights' b ! i \<noteq> None)
            \<and> (\<not> default_weight' b ! i \<and> \<not> default_delay' b ! i
                 \<longrightarrow> delays' b ! i \<noteq> None \<and> weights' b ! i \<noteq> None)))"

text \<open>The edges and the streams of the draws of a list of events, in order.\<close>

fun edge_of :: "event \<Rightarrow> (nat \<times> nat) list" where
  "edge_of (Connect s t th m) = [(s, t)]"
| "edge_of e = []"

definition edges :: "event list \<Rightarrow> (nat \<times> nat) list" where
  "edges evs = concat (map edge_of evs)"

fun draw_of :: "event \<Rightarrow> rng_id list" where
  "draw_of (Draw r) = [r]"
| "draw_of e = []"

definition draws_of :: "event list \<Rightarrow> rng_id list" where
  "draws_of evs = concat (map draw_of evs)"

text \<open>A step from \<open>b\<close> to \<open>b'\<close> that keeps the shape and the slots, draws from the streams
  in \<open>R\<close> only and hands the edges \<open>es\<close> to the storage.\<close>

definition step :: "rng_id set \<Rightarrow> (nat \<times> nat) list \<Rightarrow> builder \<Rightarrow> builder \<Rightarrow> bool" where
  "step R es b b' =
     (shape b' = shape b \<and> exceptions_raised' b' = exceptions_raised' b
      \<and> (\<exists>new. events b' = events b @ new \<and> set (draws_of new) \<subseteq> R \<and> edges new = es))"

text \<open>The pairs that the one-to-one rule connects on a thread: the pairs of the index pairing
  whose target is a node of the thread, without the autapses when they are not allowed.\<close>

definition OneToOne_thread_pairs :: "kernel \<Rightarrow> builder \<Rightarrow> nat \<Rightarrow> (nat \<times> nat) set" where
  "OneToOne_thread_pairs k b tid =
     {(node_ids (sources' b) ! i, node_ids (targets' b) ! i) | i.
        i < size_nc (targets' b)
        \<and> (allow_autapses' b \<or> node_ids (sources' b) ! i \<noteq> node_ids (targets' b) ! i)
        \<and> node_ids (targets' b) ! i \<in> node_id ` set (local_nodes k tid)}"

text \<open>What a whole region does to the builder, whether or not a worker throws: the shape
  stays, events are added, and the draws among them are from the streams in \<open>R\<close>.\<close>

definition run :: "rng_id set \<Rightarrow> builder \<Rightarrow> builder \<Rightarrow> bool" where
  "run R b b' =
     (shape b' = shape b \<and> (\<exists>new. events b' = events b @ new \<and> set (draws_of new) \<subseteq> R))"

text \<open>A parameter whose cursors are all at the start, and a builder all of whose parameters
  are.\<close>

fun is_reset :: "conn_parameter \<Rightarrow> bool" where
  "is_reset (ArrayParameter l n cs) = list_all (\<lambda>c. c = 0) cs"
| "is_reset p = True"

definition all_parameters_reset :: "builder \<Rightarrow> bool" where
  "all_parameters_reset b =
     (list_all (\<lambda>w. case w of None \<Rightarrow> True | Some p \<Rightarrow> is_reset p) (weights' b)
      \<and> list_all (\<lambda>d. case d of None \<Rightarrow> True | Some p \<Rightarrow> is_reset p) (delays' b)
      \<and> list_all (list_all (\<lambda>np. is_reset (snd np))) (synapse_params' b))"

text \<open>The parameter objects and the flags of the synapse types, and the invariant of the loop
  of the base constructor over the synapse specifications: the vectors have one entry for each
  specification, and the pointers that the flags of the first \<open>i\<close> synapse types call for are
  set.\<close>

definition layout ::
    "builder \<Rightarrow> conn_parameter option list \<times> conn_parameter option list \<times> bool list \<times> bool list
       \<times> bool list \<times> nat" where
  "layout b = (weights' b, delays' b, default_weight' b, default_delay' b,
               default_weight_and_delay' b, length (synapse_params' b))"



section \<open>Example data\<close>

definition static_synapse :: connector_model where
  "static_synapse =
     \<lparr>default_weight = DoubleValue, default_delay = DoubleValue,
      other_defaults = [(''weight'', DoubleValue), (''delay'', DoubleValue), (''receptor_type'', LongValue)],
      requires_symmetric = False, check_synapse_params = (\<lambda>s. None)\<rparr>"

definition neuron :: "nat \<Rightarrow> nat \<Rightarrow> node" where
  "neuron nid tid = \<lparr>node_id = nid, is_proxy = False, has_proxies = True, get_thread = tid\<rparr>"

text \<open>Four neurons on two threads; every stream gives 0, 1, 2, ...\<close>

definition ex_kernel :: kernel where
  "ex_kernel =
     \<lparr>num_threads = 2, node_manager_size = 4,
      local_nodes = (\<lambda>tid. if tid = 0 then [neuron 1 0, neuron 3 0]
                           else if tid = 1 then [neuron 2 1, neuron 4 1] else []),
      synapse_models = [(''static_synapse'', static_synapse)],
      rng_outcomes = (\<lambda>r i. i)\<rparr>"

definition collection :: "nat list \<Rightarrow> node_collection" where
  "collection ids = \<lparr>node_ids = ids, is_range = True, valid = True\<rparr>"

definition ex_conn_spec :: conn_spec where
  "ex_conn_spec = \<lparr>cs_allow_autapses = None, cs_allow_multapses = None, cs_make_symmetric = None\<rparr>"

definition ex_syn_spec :: syn_spec where
  "ex_syn_spec =
     \<lparr>synapse_model = Some ''static_synapse'', weight = None, delay = None, attributes = [],
      pre_synaptic_element = None, post_synaptic_element = None\<rparr>"

definition ex_no_multapses :: conn_spec where
  "ex_no_multapses = \<lparr>cs_allow_autapses = None, cs_allow_multapses = Some False, cs_make_symmetric = None\<rparr>"

text \<open>The builder that the base constructor makes from the example data (lemma \<open>ex_base\<close>).\<close>

definition ex_builder :: "nat list \<Rightarrow> nat list \<Rightarrow> builder" where
  "ex_builder s t =
     \<lparr>sources' = collection s, targets' = collection t,
      allow_autapses' = True, allow_multapses' = True, make_symmetric' = False,
      creates_symmetric_connections' = False,
      exceptions_raised' = [None, None],
      use_structural_plasticity' = False,
      parameters_requiring_skipping' = [],
      synapse_model_id' = [0],
      default_weight' = [True], default_delay' = [True], default_weight_and_delay' = [True],
      weights' = [None], delays' = [Some (ScalarParameter False)],
      synapse_params' = [[]],
      pre_synaptic_element_name' = [], post_synaptic_element_name' = [],
      rng_pos = (\<lambda>r. 0), events = []\<rparr>"

definition ex_tripartite_spec :: "int option \<Rightarrow> string \<Rightarrow> tripartite_spec" where
  "ex_tripartite_spec ps pt =
     \<lparr>ts_p_primary = None, ts_p_third_if_primary = None, ts_pool_size = ps, ts_pool_type = Some pt\<rparr>"

text \<open>The one-to-one rule as far as it is modelled here: \<^verbatim>\<open>connect_\<close>. The methods for
  disconnecting and for structural plasticity are not; the examples do not reach them, and a
  call would end in \<^verbatim>\<open>NotImplemented\<close>.\<close>

definition ex_rule :: "kernel \<Rightarrow> bool \<Rightarrow> rule" where
  "ex_rule k rp =
     \<lparr>supports_symmetric = True, is_symmetric = (\<lambda>b. False),
      connect' = OneToOne_connect' k rp,
      sp_connect' = (\<lambda>b. (Raised NotImplemented, b)),
      disconnect' = (\<lambda>b. (Raised NotImplemented, b)),
      sp_disconnect' = (\<lambda>b. (Raised NotImplemented, b))\<rparr>"

text \<open>A device without proxies, and a kernel of three threads of which the second and the
  third hold a replica of the device.\<close>

definition device :: "nat \<Rightarrow> nat \<Rightarrow> node" where
  "device nid tid = \<lparr>node_id = nid, is_proxy = False, has_proxies = False, get_thread = tid\<rparr>"

definition ex_device_kernel :: kernel where
  "ex_device_kernel =
     \<lparr>num_threads = 3, node_manager_size = 5,
      local_nodes = (\<lambda>tid. if tid = 1 \<or> tid = 2 then [device 5 tid] else []),
      synapse_models = [(''static_synapse'', static_synapse)],
      rng_outcomes = (\<lambda>r i. i)\<rparr>"

text \<open>A synapse specification with an array of two weights, a rule specification that asks for
  symmetric connections, and the builder that the base constructor makes from them (lemma
  \<open>ex_base_sym\<close>).\<close>

definition ex_array_syn_spec :: syn_spec where
  "ex_array_syn_spec =
     \<lparr>synapse_model = Some ''static_synapse'', weight = Some (DoubleArray 2), delay = None,
      attributes = [], pre_synaptic_element = None, post_synaptic_element = None\<rparr>"

definition ex_symmetric :: conn_spec where
  "ex_symmetric = \<lparr>cs_allow_autapses = None, cs_allow_multapses = None, cs_make_symmetric = Some True\<rparr>"

definition ex_sym_builder :: "nat list \<Rightarrow> nat list \<Rightarrow> nat list \<Rightarrow> event list \<Rightarrow> builder" where
  "ex_sym_builder s t cursors evs =
     \<lparr>sources' = collection s, targets' = collection t,
      allow_autapses' = True, allow_multapses' = True, make_symmetric' = True,
      creates_symmetric_connections' = False,
      exceptions_raised' = [None, None],
      use_structural_plasticity' = False,
      parameters_requiring_skipping' = [WeightRef 0],
      synapse_model_id' = [0],
      default_weight' = [False], default_delay' = [True], default_weight_and_delay' = [False],
      weights' = [Some (ArrayParameter False 2 cursors)], delays' = [Some (ScalarParameter False)],
      synapse_params' = [[]],
      pre_synaptic_element_name' = [], post_synaptic_element_name' = [],
      rng_pos = (\<lambda>r. 0), events = evs\<rparr>"

text \<open>A builder of the symmetric Bernoulli rule on the example kernel whose weight is sampled
  from a distribution.\<close>

definition ex_random_syn_spec :: syn_spec where
  "ex_random_syn_spec =
     \<lparr>synapse_model = Some ''static_synapse'', weight = Some (DistributionValue True), delay = None,
      attributes = [], pre_synaptic_element = None, post_synaptic_element = None\<rparr>"

definition ex_symmetric_bernoulli :: conn_spec where
  "ex_symmetric_bernoulli =
     \<lparr>cs_allow_autapses = Some False, cs_allow_multapses = None, cs_make_symmetric = Some True\<rparr>"

definition ex_sb_builder :: "nat list \<Rightarrow> nat list \<Rightarrow> builder" where
  "ex_sb_builder s t =
     \<lparr>sources' = collection s, targets' = collection t,
      allow_autapses' = False, allow_multapses' = True, make_symmetric' = True,
      creates_symmetric_connections' = True,
      exceptions_raised' = [None, None],
      use_structural_plasticity' = False,
      parameters_requiring_skipping' = [],
      synapse_model_id' = [0],
      default_weight' = [False], default_delay' = [True], default_weight_and_delay' = [False],
      weights' = [Some (DistributionParameter True)], delays' = [Some (ScalarParameter False)],
      synapse_params' = [[]],
      pre_synaptic_element_name' = [], post_synaptic_element_name' = [],
      rng_pos = (\<lambda>r. 0), events = []\<rparr>"




section \<open>Properties\<close>

subsection \<open>What the base constructor leaves as given\<close>

lemma frame_register: "frame (register_parameters_requiring_skipping' r p b) = frame b"
  by (simp add: register_parameters_requiring_skipping'_def frame_def)

lemma frame_set_synapse_model:
  "set_synapse_model' k sp i b = Inr b1 \<Longrightarrow> frame b1 = frame b"
  by (auto simp: set_synapse_model'_def frame_def split: option.splits sum.splits)

lemma frame_set_default_weight_or_delay:
  "frame (set_default_weight_or_delay' k sp i b) = frame b"
  by (simp add: set_default_weight_or_delay'_def Let_def register_parameters_requiring_skipping'_def frame_def)

lemma frame_set_synapse_params_loop:
  "frame (set_synapse_params_loop n ds sp i b) = frame b"
proof (induction ds arbitrary: b)
  case Nil
  then show ?case by simp
next
  case (Cons d ds)
  show ?case
    by (simp add: Let_def Cons.IH split: option.splits) (simp add: frame_def register_parameters_requiring_skipping'_def)
qed

lemma frame_syn_specs_loop:
  "syn_specs_loop k ss i b = Inr b1 \<Longrightarrow> frame b1 = frame b"
proof (induction ss arbitrary: i b)
  case Nil
  then show ?case by simp
next
  case (Cons s ss)
  from Cons.prems obtain b2 where
    m: "set_synapse_model' k s i b = Inr b2" and
    r: "syn_specs_loop k ss (Suc i)
          (set_synapse_params k (get_connection_model k (synapse_model_id' (set_default_weight_or_delay' k s i b2) ! i)) s i
             (set_default_weight_or_delay' k s i b2)) = Inr b1"
    by (auto simp: Let_def split: sum.splits)
  from Cons.IH [OF r] frame_set_synapse_model [OF m] show ?case
    by (simp add: set_synapse_params_def frame_set_synapse_params_loop frame_set_default_weight_or_delay)
qed

lemma frame_sp:
  "set_structural_plasticity_parameters ss b = Inr b1 \<Longrightarrow> frame b1 = frame b"
  by (auto simp: set_structural_plasticity_parameters_def frame_def split: if_splits list.splits option.splits)

lemma frame_reset_all: "frame (snd (reset_all b)) = frame b"
  by (auto simp: reset_all_def reset_weights'_def reset_delays'_def frame_def split: prod.splits option.splits)

lemma ConnBuilder_frame:
  assumes "ConnBuilder k sources targets conn_spec syn_specs = Inr b"
  shows "frame b = (sources, targets,
            (case cs_allow_autapses conn_spec of Some v \<Rightarrow> v | None \<Rightarrow> True),
            (case cs_allow_multapses conn_spec of Some v \<Rightarrow> v | None \<Rightarrow> True),
            (case cs_make_symmetric conn_spec of Some v \<Rightarrow> v | None \<Rightarrow> False),
            False, replicate (num_threads k) None, [])"
proof -
  let ?b0 = "\<lparr>sources' = sources, targets' = targets,
                allow_autapses' = (case cs_allow_autapses conn_spec of Some v \<Rightarrow> v | None \<Rightarrow> True),
                allow_multapses' = (case cs_allow_multapses conn_spec of Some v \<Rightarrow> v | None \<Rightarrow> True),
                make_symmetric' = (case cs_make_symmetric conn_spec of Some v \<Rightarrow> v | None \<Rightarrow> False),
                creates_symmetric_connections' = False,
                exceptions_raised' = replicate (num_threads k) None,
                use_structural_plasticity' = False,
                parameters_requiring_skipping' = [],
                synapse_model_id' = replicate (length syn_specs) 0,
                default_weight' = replicate (length syn_specs) False,
                default_delay' = replicate (length syn_specs) False,
                default_weight_and_delay' = replicate (length syn_specs) False,
                weights' = replicate (length syn_specs) None,
                delays' = replicate (length syn_specs) None,
                synapse_params' = replicate (length syn_specs) [],
                pre_synaptic_element_name' = [],
                post_synaptic_element_name' = [],
                rng_pos = (\<lambda>r. 0),
                events = []\<rparr>"
  from assms obtain sid b1 b2 where
    l: "syn_specs_loop k syn_specs 0 (?b0\<lparr>synapse_model_id' := (synapse_model_id' ?b0)[0 := sid]\<rparr>) = Inr b1" and
    s: "set_structural_plasticity_parameters syn_specs b1 = Inr b2" and
    r: "b = (if make_symmetric' b2 then snd (reset_all b2) else b2)"
    unfolding ConnBuilder_def Let_def
    by (auto split: if_splits sum.splits prod.splits option.splits)
  have "frame b = frame b2" using r by (simp add: frame_reset_all)
  also have "\<dots> = frame b1" by (rule frame_sp [OF s])
  also have "\<dots> = frame (?b0\<lparr>synapse_model_id' := (synapse_model_id' ?b0)[0 := sid]\<rparr>)"
    by (rule frame_syn_specs_loop [OF l])
  finally show ?thesis by (simp add: frame_def)
qed

subsection \<open>Evaluation of the constructors\<close>

lemmas ctor_defs = ConnBuilder_def set_synapse_model'_def get_synapse_model_id_def get_connection_model_def
  set_default_weight_or_delay'_def register_parameters_requiring_skipping'_def set_synapse_params_def
  set_structural_plasticity_parameters_def skip_syn_params'_def reset_all_def reset_weights'_def reset_delays'_def
lemmas ex_defs = ex_kernel_def static_synapse_def collection_def ex_conn_spec_def ex_syn_spec_def neuron_def

lemma ConnBuilder_fields:
  assumes "ConnBuilder k sources targets conn_spec syn_specs = Inr b"
  shows "sources' b = sources" and "targets' b = targets"
    and "allow_autapses' b = (case cs_allow_autapses conn_spec of Some v \<Rightarrow> v | None \<Rightarrow> True)"
    and "allow_multapses' b = (case cs_allow_multapses conn_spec of Some v \<Rightarrow> v | None \<Rightarrow> True)"
    and "make_symmetric' b = (case cs_make_symmetric conn_spec of Some v \<Rightarrow> v | None \<Rightarrow> False)"
    and "creates_symmetric_connections' b = False"
    and "exceptions_raised' b = replicate (num_threads k) None"
    and "events b = []"
  using ConnBuilder_frame [OF assms] by (simp_all add: frame_def)

lemma ex_base:
  "ConnBuilder ex_kernel (collection s) (collection t) ex_conn_spec [ex_syn_spec] = Inr (ex_builder s t)"
  by (simp add: ctor_defs ex_defs ex_builder_def Let_def numeral_2_eq_2)


subsection \<open>The choice of the loop\<close>

text \<open>
  Claim C8. \<^verbatim>\<open>ConnBuilder::loop_over_targets_()\<close> returns false, which selects the loop
  over the local nodes, exactly when the size of the target collection equals the size of the
  node graph, the collection is a contiguous range and no parameter that requires skipping is
  registered; in every other case it returns true. The source tests \<^verbatim>\<open>size() <
  node_manager.size()\<close>; a collection holds nodes of the node graph, each once, so it is
  never larger than the graph.
\<close>

theorem loop_over_targets_choice:
  assumes "size_nc (targets' b) \<le> node_manager_size k"
  shows "loop_over_targets' k b = False \<longleftrightarrow>
     (size_nc (targets' b) = node_manager_size k \<and> is_range (targets' b)
      \<and> parameters_requiring_skipping' b = [])"
  using assms by (auto simp: loop_over_targets'_def)

theorem loop_over_targets_choice_witness:
  "size_nc (targets' (ex_builder [1, 2] [1, 2, 3, 4])) \<le> node_manager_size ex_kernel
   \<and> loop_over_targets' ex_kernel (ex_builder [1, 2] [1, 2, 3, 4]) = False
   \<and> loop_over_targets' ex_kernel (ex_builder [1, 2] [3, 4]) = True"
proof -
  have 1: "size_nc (targets' (ex_builder [1, 2] [1, 2, 3, 4])) \<le> node_manager_size ex_kernel"
    by (simp add: ex_builder_def ex_kernel_def collection_def size_nc_def)
  have 2: "size_nc (targets' (ex_builder [1, 2] [3, 4])) \<le> node_manager_size ex_kernel"
    by (simp add: ex_builder_def ex_kernel_def collection_def size_nc_def)
  show ?thesis
    using 1 loop_over_targets_choice [OF 1] loop_over_targets_choice [OF 2]
    by (simp add: ex_builder_def ex_kernel_def collection_def size_nc_def)
qed

subsection \<open>The fixed total number rule: construction\<close>

lemma sint_size_t_mult:
  assumes "a * b < 2 ^ 63"
  shows "sint (size_t a * size_t b) = int (a * b)"
proof -
  have "size_t a * size_t b = (word_of_nat (a * b) :: 64 word)"
    by (simp add: size_t_def)
  moreover have "sint (word_of_nat n :: 64 word) = signed_take_bit 63 (int n)" for n
    by (simp add: signed_of_nat)
  then have "sint (word_of_nat (a * b) :: 64 word) = signed_take_bit 63 (int (a * b))" .
  moreover have "signed_take_bit 63 (int (a * b)) = int (a * b)"
  proof (rule signed_take_bit_int_eq_self)
    show "- (2 ^ 63) \<le> int (a * b)" by (rule order_trans [of _ 0]) simp_all
    have "int (a * b) < int (2 ^ 63)" using assms by (simp only: of_nat_less_iff)
    then show "int (a * b) < 2 ^ 63" by simp
  qed
  ultimately show ?thesis by (simp only:)
qed

lemma sint_long_bound: "sint (N :: 64 word) < 2 ^ 63"
  using sint_lt [of N] by simp

text \<open>
  Claim C5. The construction of a \<^verbatim>\<open>FixedTotalNumberBuilder\<close> throws
  \<^verbatim>\<open>BadProperty\<close> when \<open>N < 0\<close>, throws \<^verbatim>\<open>BadProperty\<close> when multapses are
  disallowed and \<open>N\<close> exceeds the product of the sizes, and throws
  \<^verbatim>\<open>NotImplemented\<close> when multapses are disallowed and \<open>N\<close> is in range; so no
  construction with multapses disallowed succeeds. The first three parts are about
  specifications that the base constructor accepts. The third part is about sizes whose
  product is a \<^verbatim>\<open>long\<close>: the source compares \<open>N\<close> with the product of two
  \<^verbatim>\<open>size_t\<close> converted to \<^verbatim>\<open>long\<close>.
\<close>

theorem FixedTotalNumberBuilder_rejects:
  "(ConnBuilder k sources targets conn_spec syn_specs = Inr b \<and> sint N < 0
      \<longrightarrow> FixedTotalNumberBuilder k sources targets conn_spec N syn_specs = Inl BadProperty)
   \<and> (ConnBuilder k sources targets conn_spec syn_specs = Inr b
        \<and> cs_allow_multapses conn_spec = Some False
        \<and> sint N > int (size_nc sources * size_nc targets)
      \<longrightarrow> FixedTotalNumberBuilder k sources targets conn_spec N syn_specs = Inl BadProperty)
   \<and> (ConnBuilder k sources targets conn_spec syn_specs = Inr b
        \<and> cs_allow_multapses conn_spec = Some False
        \<and> 0 \<le> sint N \<and> sint N \<le> int (size_nc sources * size_nc targets)
        \<and> size_nc sources * size_nc targets < 2 ^ 63
      \<longrightarrow> FixedTotalNumberBuilder k sources targets conn_spec N syn_specs = Inl NotImplemented)
   \<and> (cs_allow_multapses conn_spec = Some False
      \<longrightarrow> isl (FixedTotalNumberBuilder k sources targets conn_spec N syn_specs))"
proof (intro conjI impI)
  assume a: "ConnBuilder k sources targets conn_spec syn_specs = Inr b \<and> sint N < 0"
  then show "FixedTotalNumberBuilder k sources targets conn_spec N syn_specs = Inl BadProperty"
    by (simp add: FixedTotalNumberBuilder_def)
next
  assume a: "ConnBuilder k sources targets conn_spec syn_specs = Inr b
        \<and> cs_allow_multapses conn_spec = Some False
        \<and> sint N > int (size_nc sources * size_nc targets)"
  then have base: "ConnBuilder k sources targets conn_spec syn_specs = Inr b" by simp
  have "int (size_nc sources * size_nc targets) < 2 ^ 63"
    using a sint_long_bound [of N] by linarith
  then have "size_nc sources * size_nc targets < 2 ^ 63"
    by (metis of_nat_less_iff of_nat_numeral of_nat_power)
  then have "sint (size_t (size_nc sources) * size_t (size_nc targets)) = int (size_nc sources * size_nc targets)"
    by (rule sint_size_t_mult)
  with a show "FixedTotalNumberBuilder k sources targets conn_spec N syn_specs = Inl BadProperty"
    by (simp add: FixedTotalNumberBuilder_def ConnBuilder_fields [OF base])
next
  assume a: "ConnBuilder k sources targets conn_spec syn_specs = Inr b
        \<and> cs_allow_multapses conn_spec = Some False
        \<and> 0 \<le> sint N \<and> sint N \<le> int (size_nc sources * size_nc targets)
        \<and> size_nc sources * size_nc targets < 2 ^ 63"
  then have base: "ConnBuilder k sources targets conn_spec syn_specs = Inr b" by simp
  from a have "sint (size_t (size_nc sources) * size_t (size_nc targets)) = int (size_nc sources * size_nc targets)"
    by (simp add: sint_size_t_mult)
  with a show "FixedTotalNumberBuilder k sources targets conn_spec N syn_specs = Inl NotImplemented"
    by (simp add: FixedTotalNumberBuilder_def ConnBuilder_fields [OF base])
next
  assume a: "cs_allow_multapses conn_spec = Some False"
  show "isl (FixedTotalNumberBuilder k sources targets conn_spec N syn_specs)"
  proof (cases "ConnBuilder k sources targets conn_spec syn_specs")
    case (Inl e)
    then show ?thesis by (simp add: FixedTotalNumberBuilder_def)
  next
    case (Inr b')
    with a show ?thesis
      by (simp add: FixedTotalNumberBuilder_def ConnBuilder_fields [OF Inr])
  qed
qed

lemma ex_base_nm:
  "\<not> isl (ConnBuilder ex_kernel (collection s) (collection t) ex_no_multapses [ex_syn_spec])"
  by (simp add: ctor_defs ex_defs ex_no_multapses_def Let_def numeral_2_eq_2)

theorem FixedTotalNumberBuilder_rejects_witness:
  "FixedTotalNumberBuilder ex_kernel (collection [1, 2]) (collection [3, 4]) ex_conn_spec (- 1) [ex_syn_spec]
     = Inl BadProperty
   \<and> FixedTotalNumberBuilder ex_kernel (collection [1, 2]) (collection [3, 4]) ex_no_multapses 5 [ex_syn_spec]
     = Inl BadProperty
   \<and> FixedTotalNumberBuilder ex_kernel (collection [1, 2]) (collection [3, 4]) ex_no_multapses 3 [ex_syn_spec]
     = Inl NotImplemented
   \<and> isl (FixedTotalNumberBuilder ex_kernel (collection [1, 2]) (collection [3, 4]) ex_no_multapses 3 [ex_syn_spec])"
proof -
  obtain b where b: "ConnBuilder ex_kernel (collection [1, 2]) (collection [3, 4]) ex_conn_spec [ex_syn_spec] = Inr b"
    using ex_base by blast
  obtain b' where b': "ConnBuilder ex_kernel (collection [1, 2]) (collection [3, 4]) ex_no_multapses [ex_syn_spec] = Inr b'"
    using ex_base_nm [of "[1, 2]" "[3, 4]"] by (cases "ConnBuilder ex_kernel (collection [1, 2]) (collection [3, 4]) ex_no_multapses [ex_syn_spec]") simp_all
  have nm: "cs_allow_multapses ex_no_multapses = Some False" by (simp add: ex_no_multapses_def)
  have sz: "size_nc (collection [1, 2]) = 2" "size_nc (collection [3, 4]) = 2"
    by (simp_all add: size_nc_def collection_def)
  have 1: "FixedTotalNumberBuilder ex_kernel (collection [1, 2]) (collection [3, 4]) ex_conn_spec (- 1) [ex_syn_spec]
     = Inl BadProperty"
    using FixedTotalNumberBuilder_rejects [of ex_kernel "collection [1, 2]" "collection [3, 4]" ex_conn_spec "[ex_syn_spec]" b "- 1"] b
    by simp
  have 2: "FixedTotalNumberBuilder ex_kernel (collection [1, 2]) (collection [3, 4]) ex_no_multapses 5 [ex_syn_spec]
     = Inl BadProperty"
    using FixedTotalNumberBuilder_rejects [of ex_kernel "collection [1, 2]" "collection [3, 4]" ex_no_multapses "[ex_syn_spec]" b' 5] b' nm sz
    by simp
  have 3: "FixedTotalNumberBuilder ex_kernel (collection [1, 2]) (collection [3, 4]) ex_no_multapses 3 [ex_syn_spec]
     = Inl NotImplemented"
    using FixedTotalNumberBuilder_rejects [of ex_kernel "collection [1, 2]" "collection [3, 4]" ex_no_multapses "[ex_syn_spec]" b' 3] b' nm sz
    by simp
  from 1 2 3 show ?thesis by simp
qed

lemma ex_size: "size_nc (collection ids) = length ids"
  by (simp add: size_nc_def collection_def)

subsection \<open>Empty collections\<close>

text \<open>
  Claim C4 says that for every rule the construction of a builder with an empty source
  collection or an empty target collection throws \<^verbatim>\<open>BadProperty\<close>. The source has two
  such checks: the fixed in-degree rule rejects an empty source collection and the fixed
  out-degree rule an empty target collection. No other constructor of the file looks at
  emptiness; those of the one-to-one, all-to-all and fixed total number rules accept empty
  collections, and the fixed in-degree rule accepts an empty target collection.
\<close>

theorem empty_collection_counterexample:
  "\<not> isl (FixedTotalNumberBuilder ex_kernel (collection []) (collection []) ex_conn_spec 0 [ex_syn_spec])
   \<and> \<not> isl (OneToOneBuilder ex_kernel (collection []) (collection []) ex_conn_spec [ex_syn_spec])
   \<and> \<not> isl (AllToAllBuilder ex_kernel (collection []) (collection [1, 2]) ex_conn_spec [ex_syn_spec])
   \<and> \<not> isl (FixedInDegreeBuilder ex_kernel (collection [1, 2]) (collection []) ex_conn_spec
               (ScalarDegree 1) [ex_syn_spec])"
  by (simp add: FixedTotalNumberBuilder_def OneToOneBuilder_def AllToAllBuilder_def
      FixedInDegreeBuilder_def ex_base)
    (simp add: ex_builder_def collection_def size_nc_def size_t_def)

text \<open>
  Claim C4 as amended: when the base constructor accepts the specification, the
  construction of a \<^verbatim>\<open>FixedInDegreeBuilder\<close> with an empty source collection throws
  \<^verbatim>\<open>BadProperty\<close>, and the construction of a \<^verbatim>\<open>FixedOutDegreeBuilder\<close> with an
  empty target collection throws \<^verbatim>\<open>BadProperty\<close>.
\<close>

theorem empty_collection_rejected:
  "(ConnBuilder k sources targets conn_spec syn_specs = Inr b \<and> size_nc sources = 0
      \<longrightarrow> FixedInDegreeBuilder k sources targets conn_spec indegree syn_specs = Inl BadProperty)
   \<and> (ConnBuilder k sources targets conn_spec syn_specs = Inr b \<and> size_nc targets = 0
      \<longrightarrow> FixedOutDegreeBuilder k sources targets conn_spec outdegree syn_specs = Inl BadProperty)"
proof (intro conjI impI)
  assume a: "ConnBuilder k sources targets conn_spec syn_specs = Inr b \<and> size_nc sources = 0"
  then have base: "ConnBuilder k sources targets conn_spec syn_specs = Inr b" by simp
  from a show "FixedInDegreeBuilder k sources targets conn_spec indegree syn_specs = Inl BadProperty"
    by (simp add: FixedInDegreeBuilder_def ConnBuilder_fields [OF base])
next
  assume a: "ConnBuilder k sources targets conn_spec syn_specs = Inr b \<and> size_nc targets = 0"
  then have base: "ConnBuilder k sources targets conn_spec syn_specs = Inr b" by simp
  from a show "FixedOutDegreeBuilder k sources targets conn_spec outdegree syn_specs = Inl BadProperty"
    by (simp add: FixedOutDegreeBuilder_def ConnBuilder_fields [OF base])
qed

theorem empty_collection_rejected_witness:
  "FixedInDegreeBuilder ex_kernel (collection []) (collection [3, 4]) ex_conn_spec (ScalarDegree 1) [ex_syn_spec]
     = Inl BadProperty
   \<and> FixedOutDegreeBuilder ex_kernel (collection [1, 2]) (collection []) ex_conn_spec (ScalarDegree 1) [ex_syn_spec]
     = Inl BadProperty"
  using empty_collection_rejected [of ex_kernel "collection []" "collection [3, 4]" ex_conn_spec
          "[ex_syn_spec]" "ex_builder [] [3, 4]" "ScalarDegree 1"]
        empty_collection_rejected [of ex_kernel "collection [1, 2]" "collection []" ex_conn_spec
          "[ex_syn_spec]" "ex_builder [1, 2] []" _ "ScalarDegree 1"]
        ex_size [of "[]"]
  by (simp add: ex_base)

subsection \<open>Degrees and probabilities given as parameter objects\<close>

text \<open>
  Claim C10. When \<^verbatim>\<open>indegree\<close> of the fixed in-degree rule or \<^verbatim>\<open>p\<close> of the Bernoulli
  rule is a parameter object, the constructor makes no check of its range: the construction
  succeeds for every parameter object, among them one that always gives a negative in-degree
  and one that always gives a probability above 1, although the same value as a literal is
  rejected with \<^verbatim>\<open>BadProperty\<close>.
\<close>

theorem parameter_object_not_checked:
  "(ConnBuilder k sources targets conn_spec syn_specs = Inr b \<and> size_nc sources \<noteq> 0
      \<longrightarrow> FixedInDegreeBuilder k sources targets conn_spec (ParameterDegree pd) syn_specs = Inr (b, pd))
   \<and> (ConnBuilder k sources targets conn_spec syn_specs = Inr b
      \<longrightarrow> BernoulliBuilder k sources targets conn_spec (ParameterProb pd) syn_specs = Inr (b, pd))
   \<and> (ConnBuilder k sources targets conn_spec syn_specs = Inr b \<and> v < 0
      \<longrightarrow> FixedInDegreeBuilder k sources targets conn_spec (ScalarDegree v) syn_specs = Inl BadProperty)
   \<and> (ConnBuilder k sources targets conn_spec syn_specs = Inr b \<and> (x < 0 \<or> 1 < x)
      \<longrightarrow> BernoulliBuilder k sources targets conn_spec (ScalarProb x) syn_specs = Inl BadProperty)"
proof (intro conjI impI)
  assume a: "ConnBuilder k sources targets conn_spec syn_specs = Inr b \<and> size_nc sources \<noteq> 0"
  then have base: "ConnBuilder k sources targets conn_spec syn_specs = Inr b" by simp
  from a show "FixedInDegreeBuilder k sources targets conn_spec (ParameterDegree pd) syn_specs = Inr (b, pd)"
    by (simp add: FixedInDegreeBuilder_def ConnBuilder_fields [OF base])
next
  assume "ConnBuilder k sources targets conn_spec syn_specs = Inr b"
  then show "BernoulliBuilder k sources targets conn_spec (ParameterProb pd) syn_specs = Inr (b, pd)"
    by (simp add: BernoulliBuilder_def)
next
  assume a: "ConnBuilder k sources targets conn_spec syn_specs = Inr b \<and> v < 0"
  then have base: "ConnBuilder k sources targets conn_spec syn_specs = Inr b" by simp
  from a show "FixedInDegreeBuilder k sources targets conn_spec (ScalarDegree v) syn_specs = Inl BadProperty"
    by (auto simp: FixedInDegreeBuilder_def Let_def ConnBuilder_fields [OF base])
next
  assume a: "ConnBuilder k sources targets conn_spec syn_specs = Inr b \<and> (x < 0 \<or> 1 < x)"
  then show "BernoulliBuilder k sources targets conn_spec (ScalarProb x) syn_specs = Inl BadProperty"
    by (auto simp: BernoulliBuilder_def)
qed

theorem parameter_object_not_checked_witness:
  "FixedInDegreeBuilder ex_kernel (collection [1, 2]) (collection [3, 4]) ex_conn_spec
       (ParameterDegree (ConstantParameter (- 5))) [ex_syn_spec]
     = Inr (ex_builder [1, 2] [3, 4], ConstantParameter (- 5))
   \<and> BernoulliBuilder ex_kernel (collection [1, 2]) (collection [3, 4]) ex_conn_spec
       (ParameterProb (ConstantParameter 2)) [ex_syn_spec]
     = Inr (ex_builder [1, 2] [3, 4], ConstantParameter 2)
   \<and> FixedInDegreeBuilder ex_kernel (collection [1, 2]) (collection [3, 4]) ex_conn_spec
       (ScalarDegree (- 5)) [ex_syn_spec]
     = Inl BadProperty
   \<and> BernoulliBuilder ex_kernel (collection [1, 2]) (collection [3, 4]) ex_conn_spec
       (ScalarProb 2) [ex_syn_spec]
     = Inl BadProperty"
  using parameter_object_not_checked [of ex_kernel "collection [1, 2]" "collection [3, 4]" ex_conn_spec
          "[ex_syn_spec]" "ex_builder [1, 2] [3, 4]" "ConstantParameter (- 5)" "- 5" 2]
        parameter_object_not_checked [of ex_kernel "collection [1, 2]" "collection [3, 4]" ex_conn_spec
          "[ex_syn_spec]" "ex_builder [1, 2] [3, 4]" "ConstantParameter 2" "- 5" 2]
        ex_size [of "[1, 2]"]
  by (simp add: ex_base)

subsection \<open>The tripartite rule: construction\<close>

text \<open>
  The checks of the body, for a third population that is not empty. The construction with
  pool type \<^verbatim>\<open>block\<close> throws \<^verbatim>\<open>BadProperty\<close> unless the number of targets times the
  pool size is the size of the third population, or the pool size is 1 and the size of the
  third population divides the number of targets; and a pool size outside \<open>[1, |third|]\<close>
  throws \<^verbatim>\<open>BadProperty\<close> for every pool type. The statement is about specifications that
  the three base constructors accept and sizes whose product is a \<^verbatim>\<open>size_t\<close>. The pool
  size is the one given, or the size of the third population when none is given.
\<close>

lemma tripartite_pool_checks:
  assumes "ConnBuilder k sources targets conn_spec sp1 = Inr b1"
    and "ConnBuilder k sources third conn_spec sp2 = Inr b2"
    and "ConnBuilder k third targets conn_spec sp3 = Inr b3"
    and "size_nc third \<noteq> 0"
    and "size_nc targets * size_nc third < 2 ^ 64"
  shows
  "(ts_pool_type ts = Some ''block''
     \<and> \<not> (int (size_nc targets) * effective_pool_size ts third = int (size_nc third)
            \<or> (effective_pool_size ts third = 1 \<and> size_nc targets mod size_nc third = 0))
     \<longrightarrow> TripartiteBernoulliWithPoolBuilder k sources targets third conn_spec ts sp1 sp2 sp3
           = Inl BadProperty)
   \<and> (effective_pool_size ts third < 1 \<or> int (size_nc third) < effective_pool_size ts third
     \<longrightarrow> TripartiteBernoulliWithPoolBuilder k sources targets third conn_spec ts sp1 sp2 sp3
           = Inl BadProperty)
   \<and> (ts_pool_type ts = Some ''block''
     \<and> 1 \<le> effective_pool_size ts third \<and> effective_pool_size ts third \<le> int (size_nc third)
     \<and> (int (size_nc targets) * effective_pool_size ts third = int (size_nc third)
            \<or> (effective_pool_size ts third = 1 \<and> size_nc targets mod size_nc third = 0))
     \<and> ts_p_primary ts = None \<and> ts_p_third_if_primary ts = None
     \<longrightarrow> \<not> isl (TripartiteBernoulliWithPoolBuilder k sources targets third conn_spec ts sp1 sp2 sp3))"
proof -
  let ?ps = "effective_pool_size ts third"
  have wrap: "(size_nc targets * nat ?ps) mod 2 ^ 64 = size_nc targets * nat ?ps"
    if "1 \<le> ?ps" "?ps \<le> int (size_nc third)"
  proof -
    from that have "nat ?ps \<le> size_nc third" by linarith
    then have "size_nc targets * nat ?ps \<le> size_nc targets * size_nc third"
      by (rule mult_le_mono2)
    with assms(5) have "size_nc targets * nat ?ps < 2 ^ 64" by linarith
    then show ?thesis by (rule mod_less)
  qed
  have eq: "(size_nc targets * nat ?ps = size_nc third)
             \<longleftrightarrow> (int (size_nc targets) * ?ps = int (size_nc third))"
    if "1 \<le> ?ps"
  proof -
    from that have "int (size_nc targets * nat ?ps) = int (size_nc targets) * ?ps" by simp
    then show ?thesis by (metis of_nat_eq_iff)
  qed
  show ?thesis
    using assms(1-4) wrap eq
    by (auto simp: TripartiteBernoulliWithPoolBuilder_def Let_def effective_pool_size_def
        split: option.splits)
qed


lemma tripartite_pool_checks_example:
  "TripartiteBernoulliWithPoolBuilder ex_kernel (collection [1, 2]) (collection [3, 4]) (collection [5, 6, 7])
       ex_conn_spec (ex_tripartite_spec None ''block'') [ex_syn_spec] [ex_syn_spec] [ex_syn_spec]
     = Inl BadProperty
   \<and> TripartiteBernoulliWithPoolBuilder ex_kernel (collection [1, 2]) (collection [3, 4]) (collection [5, 6, 7])
       ex_conn_spec (ex_tripartite_spec (Some 5) ''random'') [ex_syn_spec] [ex_syn_spec] [ex_syn_spec]
     = Inl BadProperty
   \<and> \<not> isl (TripartiteBernoulliWithPoolBuilder ex_kernel (collection [1, 2]) (collection [3, 4]) (collection [5, 6])
       ex_conn_spec (ex_tripartite_spec (Some 1) ''block'') [ex_syn_spec] [ex_syn_spec] [ex_syn_spec])"
proof -
  have 1: "TripartiteBernoulliWithPoolBuilder ex_kernel (collection [1, 2]) (collection [3, 4]) (collection [5, 6, 7])
       ex_conn_spec (ex_tripartite_spec None ''block'') [ex_syn_spec] [ex_syn_spec] [ex_syn_spec]
     = Inl BadProperty"
    using tripartite_pool_checks [where ts = "ex_tripartite_spec None ''block''" and third = "collection [5, 6, 7]", OF ex_base ex_base ex_base,
            of "[3, 4]" "[1, 2]"]
    by (simp add: ex_size effective_pool_size_def ex_tripartite_spec_def)
  have 2: "TripartiteBernoulliWithPoolBuilder ex_kernel (collection [1, 2]) (collection [3, 4]) (collection [5, 6, 7])
       ex_conn_spec (ex_tripartite_spec (Some 5) ''random'') [ex_syn_spec] [ex_syn_spec] [ex_syn_spec]
     = Inl BadProperty"
    using tripartite_pool_checks [where ts = "ex_tripartite_spec (Some 5) ''random''" and third = "collection [5, 6, 7]", OF ex_base ex_base ex_base,
            of "[3, 4]" "[1, 2]"]
    by (simp add: ex_size effective_pool_size_def ex_tripartite_spec_def)
  have 3: "\<not> isl (TripartiteBernoulliWithPoolBuilder ex_kernel (collection [1, 2]) (collection [3, 4]) (collection [5, 6])
       ex_conn_spec (ex_tripartite_spec (Some 1) ''block'') [ex_syn_spec] [ex_syn_spec] [ex_syn_spec])"
    using tripartite_pool_checks [where ts = "ex_tripartite_spec (Some 1) ''block''" and third = "collection [5, 6]", OF ex_base ex_base ex_base,
            of "[3, 4]" "[1, 2]"]
    by (simp add: ex_size effective_pool_size_def ex_tripartite_spec_def)
  from 1 2 3 show ?thesis by simp
qed

text \<open>
  Claim C9. The construction of a \<^verbatim>\<open>TripartiteBernoulliWithPoolBuilder\<close> with pool type
  \<^verbatim>\<open>block\<close> throws \<^verbatim>\<open>BadProperty\<close> unless the sizes fit, and a pool size outside
  \<open>[1, |third|]\<close> throws \<^verbatim>\<open>BadProperty\<close> for every pool type. With an empty third
  population every pool size is outside \<open>[1, |third|]\<close>, and the check of the body would
  reject it: but the initialiser list has divided the number of targets by the size of the
  third population before the body runs. Whatever the pool size and the pool type, the
  construction ends in that division by zero and throws no \<^verbatim>\<open>BadProperty\<close>.
\<close>

theorem tripartite_empty_third:
  assumes "ConnBuilder k sources targets conn_spec sp1 = Inr b1"
    and "ConnBuilder k sources third conn_spec sp2 = Inr b2"
    and "ConnBuilder k third targets conn_spec sp3 = Inr b3"
    and "size_nc third = 0"
  shows "(effective_pool_size ts third < 1 \<or> int (size_nc third) < effective_pool_size ts third)
    \<and> TripartiteBernoulliWithPoolBuilder k sources targets third conn_spec ts sp1 sp2 sp3
        = Inl UndefinedBehaviour
    \<and> TripartiteBernoulliWithPoolBuilder k sources targets third conn_spec ts sp1 sp2 sp3
        \<noteq> Inl BadProperty"
proof -
  have "effective_pool_size ts third < 1 \<or> 0 < effective_pool_size ts third" by linarith
  then show ?thesis
    using assms by (simp add: TripartiteBernoulliWithPoolBuilder_def)
qed

theorem tripartite_empty_third_witness:
  "TripartiteBernoulliWithPoolBuilder ex_kernel (collection [1, 2]) (collection [3, 4]) (collection [])
       ex_conn_spec (ex_tripartite_spec (Some 1) ''random'') [ex_syn_spec] [ex_syn_spec] [ex_syn_spec]
     = Inl UndefinedBehaviour
   \<and> TripartiteBernoulliWithPoolBuilder ex_kernel (collection [1, 2]) (collection [3, 4]) (collection [])
       ex_conn_spec (ex_tripartite_spec (Some 0) ''block'') [ex_syn_spec] [ex_syn_spec] [ex_syn_spec]
     = Inl UndefinedBehaviour"
  using tripartite_empty_third [where ts = "ex_tripartite_spec (Some 1) ''random''"
          and sources = "collection [1, 2]" and targets = "collection [3, 4]"
          and third = "collection []", OF ex_base ex_base ex_base]
        tripartite_empty_third [where ts = "ex_tripartite_spec (Some 0) ''block''"
          and sources = "collection [1, 2]" and targets = "collection [3, 4]"
          and third = "collection []", OF ex_base ex_base ex_base]
  by (simp add: ex_size)

subsection \<open>Steps of a worker\<close>

lemma edges_append [simp]: "edges (xs @ ys) = edges xs @ edges ys"
  by (simp add: edges_def)

lemma draws_of_append [simp]: "draws_of (xs @ ys) = draws_of xs @ draws_of ys"
  by (simp add: draws_of_def)

lemma edges_simps [simp]: "edges [] = []" "edges [Draw r] = []" "edges [Connect s t th m] = [(s, t)]"
  by (simp_all add: edges_def)

lemma draws_of_simps [simp]: "draws_of [] = []" "draws_of [Draw r] = [r]" "draws_of [Connect s t th m] = []"
  by (simp_all add: draws_of_def)

lemma step_refl: "step R [] b b"
  by (simp add: step_def)

lemma step_trans: "step R es b b1 \<Longrightarrow> step R es' b1 b2 \<Longrightarrow> step R (es @ es') b b2"
  unfolding step_def by (elim conjE exE) (auto)

lemma step_trans_nil: "step R [] b b1 \<Longrightarrow> step R es b1 b2 \<Longrightarrow> step R es b b2"
  using step_trans [of R "[]" b b1 es b2] by simp

lemma step_trans_nil2: "step R es b b1 \<Longrightarrow> step R [] b1 b2 \<Longrightarrow> step R es b b2"
  using step_trans [of R es b b1 "[]" b2] by simp

lemma step_mono: "step R es b b' \<Longrightarrow> R \<subseteq> R' \<Longrightarrow> step R' es b b'"
  unfolding step_def by blast

lemma step_draw: "step {r} [] b (snd (draw k r b))"
  by (simp add: step_def draw_def shape_def)

lemma none_map_update:
  "ws ! i = Some w \<Longrightarrow> map (\<lambda>x. x = None) (ws[i := Some w']) = map (\<lambda>x. x = None) ws"
proof (cases "i < length ws")
  case True
  assume "ws ! i = Some w"
  with True show ?thesis by (simp add: map_update list_update_same_conv)
next
  case False
  then show ?thesis by (simp add: list_update_beyond)
qed

lemma step_value_of: "step {r} [] b (snd (value_of k tid r p b))"
  by (cases p) (simp_all add: step_refl step_draw)

lemma step_update_params: "step {r} [] b (snd (update_params k tid r ps b))"
proof (induction ps arbitrary: b)
  case Nil
  show ?case by (simp add: step_refl)
next
  case (Cons np ps)
  have 1: "step {r} [] b (snd (value_of k tid r (snd np) b))" by (rule step_value_of)
  have 2: "step {r} [] (snd (value_of k tid r (snd np) b))
             (snd (update_params k tid r ps (snd (value_of k tid r (snd np) b))))"
    by (rule Cons.IH)
  from step_trans_nil [OF 1 2] show ?case
    by (simp add: case_prod_beta)
qed

lemma step_synapse_params_update:
  "step R es b b1 \<Longrightarrow> step R es b (b1\<lparr>synapse_params' := (synapse_params' b1)[i := ps]\<rparr>)"
  by (simp add: step_def shape_def)

lemma step_update_param_dict: "step {r} [] b (update_param_dict' k tid r i b)"
  unfolding update_param_dict'_def
  using step_update_params [of r b k tid "synapse_params' b ! i"]
  by (simp add: case_prod_beta step_synapse_params_update)


lemma value_of_members:
  "weights' (snd (value_of k tid r p b)) = weights' b"
  "delays' (snd (value_of k tid r p b)) = delays' b"
  by (cases p; simp add: draw_def)+

lemma step_delays_update:
  "step R es b b1 \<Longrightarrow> delays' b1 ! i = Some d
   \<Longrightarrow> step R es b (b1\<lparr>delays' := (delays' b1)[i := Some d']\<rparr>)"
  by (simp add: step_def shape_def none_map_update)

lemma step_weights_update:
  "step R es b b1 \<Longrightarrow> weights' b1 ! i = Some w
   \<Longrightarrow> step R es b (b1\<lparr>weights' := (weights' b1)[i := Some w']\<rparr>)"
  by (simp add: step_def shape_def none_map_update)

lemma step_delay_value: "step {r} [] b (snd (delay_value k tid r i b))"
proof (cases "delays' b ! i")
  case None
  then show ?thesis by (simp add: delay_value_def step_refl)
next
  case (Some d)
  have "step {r} [] b (snd (value_of k tid r d b))" by (rule step_value_of)
  moreover have "delays' (snd (value_of k tid r d b)) ! i = Some d"
    using Some by (simp add: value_of_members)
  ultimately show ?thesis
    using Some by (simp add: delay_value_def case_prod_beta step_delays_update)
qed

lemma step_weight_value: "step {r} [] b (snd (weight_value k tid r i b))"
proof (cases "weights' b ! i")
  case None
  then show ?thesis by (simp add: weight_value_def step_refl)
next
  case (Some w)
  have "step {r} [] b (snd (value_of k tid r w b))" by (rule step_value_of)
  moreover have "weights' (snd (value_of k tid r w b)) ! i = Some w"
    using Some by (simp add: value_of_members)
  ultimately show ?thesis
    using Some by (simp add: weight_value_def case_prod_beta step_weights_update)
qed

lemma delay_value_ok: "delays' b ! i \<noteq> None \<Longrightarrow> fst (delay_value k tid r i b) = None"
  by (auto simp: delay_value_def case_prod_beta)

lemma weight_value_ok: "weights' b ! i \<noteq> None \<Longrightarrow> fst (weight_value k tid r i b) = None"
  by (auto simp: weight_value_def case_prod_beta)

lemma shape_members:
  assumes "shape b' = shape b"
  shows "sources' b' = sources' b" "targets' b' = targets' b"
    "allow_autapses' b' = allow_autapses' b" "allow_multapses' b' = allow_multapses' b"
    "make_symmetric' b' = make_symmetric' b"
    "creates_symmetric_connections' b' = creates_symmetric_connections' b"
    "use_structural_plasticity' b' = use_structural_plasticity' b"
    "parameters_requiring_skipping' b' = parameters_requiring_skipping' b"
    "synapse_model_id' b' = synapse_model_id' b"
    "default_weight' b' = default_weight' b" "default_delay' b' = default_delay' b"
    "default_weight_and_delay' b' = default_weight_and_delay' b"
    "length (synapse_params' b') = length (synapse_params' b)"
    "length (weights' b') = length (weights' b)" "length (delays' b') = length (delays' b)"
    "i < length (weights' b) \<Longrightarrow> (weights' b' ! i = None) = (weights' b ! i = None)"
    "j < length (delays' b) \<Longrightarrow> (delays' b' ! j = None) = (delays' b ! j = None)"
proof -
  from assms have w: "map (\<lambda>w. w = None) (weights' b') = map (\<lambda>w. w = None) (weights' b)"
    and d: "map (\<lambda>d. d = None) (delays' b') = map (\<lambda>d. d = None) (delays' b)"
    by (simp_all add: shape_def)
  from w show lw: "length (weights' b') = length (weights' b)" by (rule map_eq_imp_length_eq)
  from d show ld: "length (delays' b') = length (delays' b)" by (rule map_eq_imp_length_eq)
  show "(weights' b' ! i = None) = (weights' b ! i = None)" if "i < length (weights' b)"
    using that lw arg_cong [OF w, of "\<lambda>xs. xs ! i"] by simp
  show "(delays' b' ! j = None) = (delays' b ! j = None)" if "j < length (delays' b)"
    using that ld arg_cong [OF d, of "\<lambda>xs. xs ! j"] by simp
qed (use assms in \<open>simp_all add: shape_def\<close>)

lemma shape_params_present:
  assumes "shape b' = shape b" and "params_present b"
  shows "params_present b'"
  using assms(2) shape_members [OF assms(1)]
  unfolding params_present_def Let_def
  by (metis (no_types, lifting))

lemma step_shape: "step R es b b' \<Longrightarrow> shape b' = shape b"
  by (simp add: step_def)

lemma step_connect_event:
  "step R [(s, t)] b (b\<lparr>events := events b @ [Connect s t th m]\<rparr>)"
  by (simp add: step_def shape_def)


lemma step_synapse_values: "step {r} [] b1 (snd (synapse_values k tt r i b1))"
proof -
  have "step {r} [] b1 (snd (weight_value k tt r i (snd (delay_value k tt r i b1))))"
    by (rule step_trans_nil [OF step_delay_value step_weight_value])
  then show ?thesis
    by (cases "delay_value k tt r i b1"; cases "fst (delay_value k tt r i b1)")
       (use step_delay_value [of r b1 k tt i] in
         \<open>auto simp: synapse_values_def step_refl step_delay_value step_weight_value\<close>)
qed

lemma synapse_values_ok:
  assumes pp1: "params_present b1" and i1: "i < length (synapse_params' b1)"
  shows "fst (synapse_values k tt r i b1) = None"
proof -
  from pp1 i1 have lens: "i < length (weights' b1)" "i < length (delays' b1)"
    and pres: "\<not> default_weight_and_delay' b1 ! i \<Longrightarrow> default_weight' b1 ! i \<Longrightarrow> delays' b1 ! i \<noteq> None"
      "\<not> default_weight_and_delay' b1 ! i \<Longrightarrow> \<not> default_weight' b1 ! i \<Longrightarrow> default_delay' b1 ! i
         \<Longrightarrow> weights' b1 ! i \<noteq> None"
      "\<not> default_weight_and_delay' b1 ! i \<Longrightarrow> \<not> default_weight' b1 ! i \<Longrightarrow> \<not> default_delay' b1 ! i
         \<Longrightarrow> delays' b1 ! i \<noteq> None \<and> weights' b1 ! i \<noteq> None"
    by (simp_all add: params_present_def Let_def)
  show ?thesis
  proof (cases "default_weight_and_delay' b1 ! i")
    case True
    then show ?thesis by (simp add: synapse_values_def)
  next
    case dwd: False
    show ?thesis
    proof (cases "default_weight' b1 ! i")
      case True
      with dwd pres(1) show ?thesis
        by (simp add: synapse_values_def delay_value_ok)
    next
      case dw: False
      show ?thesis
      proof (cases "default_delay' b1 ! i")
        case True
        with dwd dw pres(2) show ?thesis
          by (simp add: synapse_values_def weight_value_ok)
      next
        case dd: False
        define b2 where "b2 = snd (delay_value k tt r i b1)"
        have d0: "fst (delay_value k tt r i b1) = None"
          using pres(3) [OF dwd dw dd] by (simp add: delay_value_ok)
        have s2: "step {r} [] b1 b2" unfolding b2_def by (rule step_delay_value)
        have "weights' b2 ! i \<noteq> None"
          using shape_members(16) [OF step_shape [OF s2], of i] lens(1) pres(3) [OF dwd dw dd]
          by simp
        then have w0: "fst (weight_value k tt r i b2) = None" by (rule weight_value_ok)
        have "synapse_values k tt r i b1 = weight_value k tt r i b2"
          using dwd dw dd d0 unfolding synapse_values_def b2_def
          by (cases "delay_value k tt r i b1") simp
        with w0 show ?thesis by simp
      qed
    qed
  qed
qed

text \<open>Whatever the builder, \<^verbatim>\<open>single_connect_\<close> draws from the stream it is given only.\<close>

lemma single_connect_loop_any:
  "\<exists>es. step {r} es b (snd (single_connect_loop k s t tt r idxs b))"
proof (induction idxs arbitrary: b)
  case Nil
  show ?case using step_refl by auto
next
  case (Cons i idxs)
  define b1 where "b1 = update_param_dict' k tt r i b"
  have s1: "step {r} [] b b1" unfolding b1_def by (rule step_update_param_dict)
  obtain x b3 where v: "synapse_values k tt r i b1 = (x, b3)" by (cases "synapse_values k tt r i b1")
  have s13: "step {r} [] b1 b3" using step_synapse_values [of r b1 k tt i] v by simp
  have s03: "step {r} [] b b3" by (rule step_trans_nil [OF s1 s13])
  show ?case
  proof (cases x)
    case (Some e)
    with v s03 show ?thesis by (auto simp: b1_def [symmetric])
  next
    case None
    define b4 where "b4 = b3\<lparr>events := events b3 @ [Connect s (node_id t) tt (synapse_model_id' b3 ! i)]\<rparr>"
    have s34: "step {r} [(s, node_id t)] b3 b4" unfolding b4_def by (rule step_connect_event)
    from Cons.IH [of b4] obtain es where "step {r} es b4 (snd (single_connect_loop k s t tt r idxs b4))" ..
    from step_trans [OF step_trans_nil [OF s03 s34] this]
    show ?thesis using v None by (auto simp: b1_def [symmetric] b4_def [symmetric])
  qed
qed

lemma single_connect_any:
  "\<exists>es. step {r} es b (snd (single_connect' k requires_proxies s t tt r b))"
  using single_connect_loop_any [of r b k s t tt "[0..<length (synapse_params' b)]"] step_refl [of "{r}" b]
  by (auto simp: single_connect'_def)

text \<open>On a builder whose parameters are in place, \<^verbatim>\<open>single_connect_\<close> throws nothing and
  hands one edge for each synapse type to the storage.\<close>

lemma single_connect_loop_step:
  assumes "params_present b" and "\<forall>i\<in>set idxs. i < length (synapse_params' b)"
  shows "fst (single_connect_loop k s t tt r idxs b) = None
         \<and> step {r} (replicate (length idxs) (s, node_id t)) b
              (snd (single_connect_loop k s t tt r idxs b))"
  using assms
proof (induction idxs arbitrary: b)
  case Nil
  show ?case by (simp add: step_refl)
next
  case (Cons i idxs)
  define b1 where "b1 = update_param_dict' k tt r i b"
  have s1: "step {r} [] b b1" unfolding b1_def by (rule step_update_param_dict)
  have sh1: "shape b1 = shape b" by (rule step_shape [OF s1])
  have pp1: "params_present b1" by (rule shape_params_present [OF sh1 Cons.prems(1)])
  have i1: "i < length (synapse_params' b1)"
    using Cons.prems(2) shape_members(13) [OF sh1] by simp
  obtain b3 where v: "synapse_values k tt r i b1 = (None, b3)"
    using synapse_values_ok [OF pp1 i1, of k tt r] by (cases "synapse_values k tt r i b1") simp
  have s13: "step {r} [] b1 b3" using step_synapse_values [of r b1 k tt i] v by simp
  define b4 where "b4 = b3\<lparr>events := events b3 @ [Connect s (node_id t) tt (synapse_model_id' b3 ! i)]\<rparr>"
  have s34: "step {r} [(s, node_id t)] b3 b4" unfolding b4_def by (rule step_connect_event)
  have s04: "step {r} [(s, node_id t)] b b4"
    by (rule step_trans_nil [OF step_trans_nil [OF s1 s13] s34])
  have sh4: "shape b4 = shape b" by (rule step_shape [OF s04])
  have pp4: "params_present b4" by (rule shape_params_present [OF sh4 Cons.prems(1)])
  have i4: "\<forall>j\<in>set idxs. j < length (synapse_params' b4)"
    using Cons.prems(2) shape_members(13) [OF sh4] by simp
  have unfold: "single_connect_loop k s t tt r (i # idxs) b = single_connect_loop k s t tt r idxs b4"
    using v by (simp add: b1_def [symmetric] b4_def [symmetric])
  from Cons.IH [OF pp4 i4] have
    f: "fst (single_connect_loop k s t tt r idxs b4) = None" and
    st: "step {r} (replicate (length idxs) (s, node_id t)) b4 (snd (single_connect_loop k s t tt r idxs b4))"
    by simp_all
  show ?case
    unfolding unfold using step_trans [OF s04 st] f by simp
qed

lemma single_connect_step:
  assumes "params_present b" and "requires_proxies \<longrightarrow> has_proxies t"
  shows "fst (single_connect' k requires_proxies s t tt r b) = None
         \<and> step {r} (replicate (length (synapse_params' b)) (s, node_id t)) b
              (snd (single_connect' k requires_proxies s t tt r b))"
  using assms single_connect_loop_step [of b "[0..<length (synapse_params' b)]" k s t tt r]
  by (auto simp: single_connect'_def)

subsection \<open>The one-to-one rule: the edges\<close>

lemma none_map_option_update:
  "map (\<lambda>x. x = None) (ws[i := map_option f (ws ! i)]) = map (\<lambda>x. x = None) ws"
proof (cases "i < length ws")
  case True
  then show ?thesis by (simp add: map_update list_update_same_conv)
next
  case False
  then show ?thesis by (simp add: list_update_beyond)
qed

lemma step_skip_ref: "step R [] b (skip_ref tid n ref b)"
  by (cases ref) (simp_all add: step_def shape_def none_map_option_update)

lemma skip_ref_refs: "parameters_requiring_skipping' (skip_ref tid n ref b) = parameters_requiring_skipping' b"
  by (cases ref) simp_all

lemma step_fold_skip: "step R [] b (fold (skip_ref tid n) refs b)"
proof (induction refs arbitrary: b)
  case Nil
  show ?case by (simp add: step_refl)
next
  case (Cons ref refs)
  from step_trans_nil [OF step_skip_ref Cons.IH] show ?case by simp
qed

lemma step_skip_conn_parameter: "step R [] b (skip_conn_parameter' tid n b)"
  by (simp add: skip_conn_parameter'_def step_fold_skip)

lemma get_node_or_proxy_local:
  assumes "\<forall>n\<in>set (local_nodes k tid). \<not> is_proxy n \<and> (rp \<longrightarrow> has_proxies n)"
  shows "is_proxy (get_node_or_proxy k t tid) \<longleftrightarrow> t \<notin> node_id ` set (local_nodes k tid)"
    and "\<not> is_proxy (get_node_or_proxy k t tid) \<Longrightarrow> rp \<longrightarrow> has_proxies (get_node_or_proxy k t tid)"
    and "\<not> is_proxy (get_node_or_proxy k t tid) \<Longrightarrow> node_id (get_node_or_proxy k t tid) = t"
proof -
  show "is_proxy (get_node_or_proxy k t tid) \<longleftrightarrow> t \<notin> node_id ` set (local_nodes k tid)"
  proof (cases "find (\<lambda>n. node_id n = t) (local_nodes k tid)")
    case None
    then have "t \<notin> node_id ` set (local_nodes k tid)" by (auto simp: find_None_iff)
    with None show ?thesis by (simp add: get_node_or_proxy_def proxy_node_def)
  next
    case (Some n)
    then have "n \<in> set (local_nodes k tid)" "node_id n = t"
      by (auto simp: find_Some_iff)
    with Some assms show ?thesis by (auto simp: get_node_or_proxy_def)
  qed
  show "rp \<longrightarrow> has_proxies (get_node_or_proxy k t tid)" if "\<not> is_proxy (get_node_or_proxy k t tid)"
  proof (cases "find (\<lambda>n. node_id n = t) (local_nodes k tid)")
    case None
    with that show ?thesis by (simp add: get_node_or_proxy_def proxy_node_def)
  next
    case (Some n)
    then have "n \<in> set (local_nodes k tid)" by (auto simp: find_Some_iff)
    with Some assms show ?thesis by (auto simp: get_node_or_proxy_def)
  qed
  show "node_id (get_node_or_proxy k t tid) = t" if "\<not> is_proxy (get_node_or_proxy k t tid)"
  proof (cases "find (\<lambda>n. node_id n = t) (local_nodes k tid)")
    case None
    with that show ?thesis by (simp add: get_node_or_proxy_def proxy_node_def)
  next
    case (Some n)
    then have "node_id n = t" by (auto simp: find_Some_iff)
    with Some show ?thesis by (simp add: get_node_or_proxy_def)
  qed
qed

lemma OneToOne_target_loop_step:
  assumes "length ts = length ss" and "params_present b" and "0 < length (synapse_params' b)"
    and nodes: "\<forall>n\<in>set (local_nodes k tid). \<not> is_proxy n \<and> (rp \<longrightarrow> has_proxies n)"
  shows "\<exists>es. fst (OneToOne_target_loop k rp tid ts ss b) = Returned
           \<and> step {VpSpecific tid} es b (snd (OneToOne_target_loop k rp tid ts ss b))
           \<and> set es = {(s, t). (t, s) \<in> set (zip ts ss) \<and> (allow_autapses' b \<or> s \<noteq> t)
                              \<and> t \<in> node_id ` set (local_nodes k tid)}"
  using assms(1-3)
proof (induction ts ss arbitrary: b rule: list_induct2)
  case Nil
  show ?case using step_refl by auto
next
  case (Cons t ts s ss)
  let ?E = "\<lambda>b. {(s', t'). (t', s') \<in> set (zip ts ss) \<and> (allow_autapses' b \<or> s' \<noteq> t')
                              \<and> t' \<in> node_id ` set (local_nodes k tid)}"
  have rest: "\<exists>es. fst (OneToOne_target_loop k rp tid ts ss b1) = Returned
           \<and> step {VpSpecific tid} (es0 @ es) b (snd (OneToOne_target_loop k rp tid ts ss b1))
           \<and> set es = ?E b"
    if st: "step {VpSpecific tid} es0 b b1" for b1 es0
  proof -
    have sh: "shape b1 = shape b" by (rule step_shape [OF st])
    have pp: "params_present b1" by (rule shape_params_present [OF sh Cons.prems(1)])
    have n0: "0 < length (synapse_params' b1)" using Cons.prems(2) shape_members(13) [OF sh] by simp
    from Cons.IH [OF pp n0] obtain es where
      "fst (OneToOne_target_loop k rp tid ts ss b1) = Returned"
      "step {VpSpecific tid} es b1 (snd (OneToOne_target_loop k rp tid ts ss b1))"
      "set es = ?E b1" by blast
    with step_trans [OF st] shape_members(3) [OF sh] show ?thesis by auto
  qed
  show ?case
  proof (cases "s = t \<and> \<not> allow_autapses' b")
    case True
    from rest [OF step_refl] obtain es where
      "fst (OneToOne_target_loop k rp tid ts ss b) = Returned"
      "step {VpSpecific tid} es b (snd (OneToOne_target_loop k rp tid ts ss b))"
      "set es = ?E b" by auto
    with True show ?thesis by (intro exI [of _ es]) auto
  next
    case na: False
    show ?thesis
    proof (cases "is_proxy (get_node_or_proxy k t tid)")
      case True
      then have nl: "t \<notin> node_id ` set (local_nodes k tid)"
        using get_node_or_proxy_local(1) [OF nodes] by simp
      from rest [OF step_skip_conn_parameter [of _ b tid 1]] obtain es where
        "fst (OneToOne_target_loop k rp tid ts ss (skip_conn_parameter' tid 1 b)) = Returned"
        "step {VpSpecific tid} es b (snd (OneToOne_target_loop k rp tid ts ss (skip_conn_parameter' tid 1 b)))"
        "set es = ?E b" by auto
      with na True nl show ?thesis by (intro exI [of _ es]) (auto simp: Let_def)
    next
      case False
      then have loc: "t \<in> node_id ` set (local_nodes k tid)"
        using get_node_or_proxy_local(1) [OF nodes] by simp
      let ?target = "get_node_or_proxy k t tid"
      have hp: "rp \<longrightarrow> has_proxies ?target"
        by (rule get_node_or_proxy_local(2) [OF nodes False])
      have nid: "node_id ?target = t" by (rule get_node_or_proxy_local(3) [OF nodes False])
      obtain b1 where sc: "single_connect' k rp s ?target tid (VpSpecific tid) b = (None, b1)"
        and st: "step {VpSpecific tid} (replicate (length (synapse_params' b)) (s, t)) b b1"
        using single_connect_step [OF Cons.prems(1) hp, of k s tid "VpSpecific tid"] nid
        by (cases "single_connect' k rp s ?target tid (VpSpecific tid) b") auto
      from rest [OF st] obtain es where
        "fst (OneToOne_target_loop k rp tid ts ss b1) = Returned"
        "step {VpSpecific tid} (replicate (length (synapse_params' b)) (s, t) @ es) b
           (snd (OneToOne_target_loop k rp tid ts ss b1))"
        "set es = ?E b" by auto
      with na False loc sc Cons.prems(2) show ?thesis
        by (intro exI [of _ "replicate (length (synapse_params' b)) (s, t) @ es"])
           (auto simp: Let_def)
    qed
  qed
qed


lemma index_of_Some: "index_of x xs = Some i \<Longrightarrow> i < length xs \<and> xs ! i = x"
proof (induction xs arbitrary: i)
  case Nil
  then show ?case by simp
next
  case (Cons y ys)
  then show ?case by (auto split: if_splits)
qed

lemma index_of_distinct: "distinct xs \<Longrightarrow> i < length xs \<Longrightarrow> index_of (xs ! i) xs = Some i"
proof (induction xs arbitrary: i)
  case Nil
  then show ?case by simp
next
  case (Cons y ys)
  show ?case
  proof (cases i)
    case 0
    then show ?thesis by simp
  next
    case (Suc j)
    with Cons.prems have "ys ! j \<noteq> y" "distinct ys" "j < length ys" by auto
    with Cons.IH [of j] Suc show ?thesis by simp
  qed
qed

lemma OneToOne_local_loop_step:
  assumes "params_present b" and "0 < length (synapse_params' b)"
    and "size_nc (sources' b) = size_nc (targets' b)"
    and "\<forall>n\<in>set ns. rp \<longrightarrow> has_proxies n"
  shows "\<exists>es. fst (OneToOne_local_loop k rp tid ns b) = Returned
           \<and> step {VpSpecific tid} es b (snd (OneToOne_local_loop k rp tid ns b))
           \<and> set es = {(node_ids (sources' b) ! lid, node_id n) | n lid.
                         n \<in> set ns \<and> index_of (node_id n) (node_ids (targets' b)) = Some lid
                         \<and> (allow_autapses' b \<or> node_ids (sources' b) ! lid \<noteq> node_id n)}"
  using assms
proof (induction ns arbitrary: b)
  case Nil
  show ?case using step_refl by auto
next
  case (Cons n ns)
  let ?E = "\<lambda>b ns. {(node_ids (sources' b) ! lid, node_id n) | n lid.
                         n \<in> set ns \<and> index_of (node_id n) (node_ids (targets' b)) = Some lid
                         \<and> (allow_autapses' b \<or> node_ids (sources' b) ! lid \<noteq> node_id n)}"
  have rest: "\<exists>es. fst (OneToOne_local_loop k rp tid ns b1) = Returned
           \<and> step {VpSpecific tid} (es0 @ es) b (snd (OneToOne_local_loop k rp tid ns b1))
           \<and> set es = ?E b ns"
    if st: "step {VpSpecific tid} es0 b b1" for b1 es0
  proof -
    have sh: "shape b1 = shape b" by (rule step_shape [OF st])
    have pp: "params_present b1" by (rule shape_params_present [OF sh Cons.prems(1)])
    have n0: "0 < length (synapse_params' b1)" using Cons.prems(2) shape_members(13) [OF sh] by simp
    have sz: "size_nc (sources' b1) = size_nc (targets' b1)"
      using Cons.prems(3) shape_members(1,2) [OF sh] by simp
    have hp: "\<forall>n\<in>set ns. rp \<longrightarrow> has_proxies n" using Cons.prems(4) by simp
    from Cons.IH [OF pp n0 sz hp] obtain es where
      "fst (OneToOne_local_loop k rp tid ns b1) = Returned"
      "step {VpSpecific tid} es b1 (snd (OneToOne_local_loop k rp tid ns b1))"
      "set es = ?E b1 ns" by blast
    with step_trans [OF st] shape_members(1,2,3) [OF sh] show ?thesis by auto
  qed
  have split: "?E b (n # ns) =
      {(node_ids (sources' b) ! lid, node_id n) | lid.
          index_of (node_id n) (node_ids (targets' b)) = Some lid
          \<and> (allow_autapses' b \<or> node_ids (sources' b) ! lid \<noteq> node_id n)} \<union> ?E b ns"
    by auto
  show ?case
  proof (cases "get_lid (targets' b) (node_id n)")
    case None
    from rest [OF step_refl] obtain es where
      "fst (OneToOne_local_loop k rp tid ns b) = Returned"
      "step {VpSpecific tid} es b (snd (OneToOne_local_loop k rp tid ns b))"
      "set es = ?E b ns" by auto
    with None show ?thesis
      unfolding split by (intro exI [of _ es]) (auto simp: get_lid_def)
  next
    case (Some lid)
    then have io: "index_of (node_id n) (node_ids (targets' b)) = Some lid"
      by (simp add: get_lid_def)
    from index_of_Some [OF io] Cons.prems(3) have lt: "\<not> size_nc (sources' b) \<le> lid"
      by (simp add: size_nc_def)
    show ?thesis
    proof (cases "\<not> allow_autapses' b \<and> node_ids (sources' b) ! lid = node_id n")
      case True
      from rest [OF step_refl] obtain es where
        "fst (OneToOne_local_loop k rp tid ns b) = Returned"
        "step {VpSpecific tid} es b (snd (OneToOne_local_loop k rp tid ns b))"
        "set es = ?E b ns" by auto
      with Some lt True io show ?thesis
        unfolding split by (intro exI [of _ es]) auto
    next
      case False
      have hp: "rp \<longrightarrow> has_proxies n" using Cons.prems(4) by simp
      obtain b1 where
        sc: "single_connect' k rp (node_ids (sources' b) ! lid) n tid (VpSpecific tid) b = (None, b1)"
        and st: "step {VpSpecific tid}
                   (replicate (length (synapse_params' b)) (node_ids (sources' b) ! lid, node_id n)) b b1"
        using single_connect_step [OF Cons.prems(1) hp, of k "node_ids (sources' b) ! lid" tid "VpSpecific tid"]
        by (cases "single_connect' k rp (node_ids (sources' b) ! lid) n tid (VpSpecific tid) b") auto
      from rest [OF st] obtain es where
        "fst (OneToOne_local_loop k rp tid ns b1) = Returned"
        "step {VpSpecific tid}
           (replicate (length (synapse_params' b)) (node_ids (sources' b) ! lid, node_id n) @ es) b
           (snd (OneToOne_local_loop k rp tid ns b1))"
        "set es = ?E b ns" by auto
      with Some lt False io sc Cons.prems(2) show ?thesis
        unfolding split
        by (intro exI [of _ "replicate (length (synapse_params' b)) (node_ids (sources' b) ! lid, node_id n) @ es"])
           auto
    qed
  qed
qed

lemma OneToOne_body_step:
  assumes "params_present b" and "0 < length (synapse_params' b)"
    and sz: "size_nc (sources' b) = size_nc (targets' b)"
    and dist: "distinct (node_ids (targets' b))"
    and nodes: "\<forall>n\<in>set (local_nodes k tid). \<not> is_proxy n \<and> (rp \<longrightarrow> has_proxies n)"
  shows "\<exists>es. fst (OneToOne_body k rp tid b) = Returned
           \<and> step {VpSpecific tid} es b (snd (OneToOne_body k rp tid b))
           \<and> set es = OneToOne_thread_pairs k b tid"
proof (cases "loop_over_targets' k b")
  case True
  have len: "length (node_ids (targets' b)) = length (node_ids (sources' b))"
    using sz by (simp add: size_nc_def)
  have "{(s, t). (t, s) \<in> set (zip (node_ids (targets' b)) (node_ids (sources' b)))
                 \<and> (allow_autapses' b \<or> s \<noteq> t) \<and> t \<in> node_id ` set (local_nodes k tid)}
        = OneToOne_thread_pairs k b tid"
    using len unfolding OneToOne_thread_pairs_def size_nc_def in_set_zip by auto
  with OneToOne_target_loop_step [OF len assms(1,2) nodes] True show ?thesis
    by (simp add: OneToOne_body_def)
next
  case False
  have hp: "\<forall>n\<in>set (local_nodes k tid). rp \<longrightarrow> has_proxies n" using nodes by simp
  have "{(node_ids (sources' b) ! lid, node_id n) | n lid.
            n \<in> set (local_nodes k tid) \<and> index_of (node_id n) (node_ids (targets' b)) = Some lid
            \<and> (allow_autapses' b \<or> node_ids (sources' b) ! lid \<noteq> node_id n)}
        = OneToOne_thread_pairs k b tid" (is "?L = ?R")
  proof (intro set_eqI iffI)
    fix x assume "x \<in> ?L"
    then obtain n lid where x: "x = (node_ids (sources' b) ! lid, node_id n)"
      and n: "n \<in> set (local_nodes k tid)"
      and io: "index_of (node_id n) (node_ids (targets' b)) = Some lid"
      and aa: "allow_autapses' b \<or> node_ids (sources' b) ! lid \<noteq> node_id n" by auto
    from index_of_Some [OF io] have "lid < size_nc (targets' b)" "node_ids (targets' b) ! lid = node_id n"
      by (simp_all add: size_nc_def)
    with x n aa show "x \<in> ?R" unfolding OneToOne_thread_pairs_def by force
  next
    fix x assume "x \<in> ?R"
    then obtain i where x: "x = (node_ids (sources' b) ! i, node_ids (targets' b) ! i)"
      and i: "i < size_nc (targets' b)"
      and aa: "allow_autapses' b \<or> node_ids (sources' b) ! i \<noteq> node_ids (targets' b) ! i"
      and l: "node_ids (targets' b) ! i \<in> node_id ` set (local_nodes k tid)"
      unfolding OneToOne_thread_pairs_def by auto
    from l obtain n where n: "n \<in> set (local_nodes k tid)" "node_id n = node_ids (targets' b) ! i" by auto
    from index_of_distinct [OF dist, of i] i have "index_of (node_ids (targets' b) ! i) (node_ids (targets' b)) = Some i"
      by (simp add: size_nc_def)
    with x n aa show "x \<in> ?L" by force
  qed
  with OneToOne_local_loop_step [where k = k and tid = tid, OF assms(1,2) sz hp] False show ?thesis
    by (simp add: OneToOne_body_def)
qed


lemma run_thread_Returned: "fst (body tid b) = Returned \<Longrightarrow> run_thread body tid b = body tid b"
  by (cases "body tid b") (simp add: run_thread_def)

lemma parallel_region_step:
  assumes "\<And>tid b1. tid \<in> set tids \<Longrightarrow> shape b1 = shape b \<Longrightarrow>
             \<exists>es. fst (body tid b1) = Returned \<and> step R es b1 (snd (body tid b1)) \<and> set es = E tid"
  shows "\<exists>es. fst (parallel_region body tids b) = Returned
           \<and> step R es b (snd (parallel_region body tids b))
           \<and> set es = (\<Union>tid\<in>set tids. E tid)"
  using assms
proof (induction tids arbitrary: b)
  case Nil
  show ?case using step_refl by auto
next
  case (Cons tid tids)
  from Cons.prems [of tid b] obtain es1 where
    r1: "fst (body tid b) = Returned" and s1: "step R es1 b (snd (body tid b))" and e1: "set es1 = E tid"
    by auto
  define b1 where "b1 = snd (body tid b)"
  have rt: "run_thread body tid b = (Returned, b1)"
    using run_thread_Returned [of body tid b] r1 by (simp add: b1_def prod_eq_iff)
  have sh1: "shape b1 = shape b" using step_shape [OF s1] by (simp add: b1_def)
  have "\<exists>es. fst (parallel_region body tids b1) = Returned
           \<and> step R es b1 (snd (parallel_region body tids b1))
           \<and> set es = (\<Union>tid\<in>set tids. E tid)"
  proof (rule Cons.IH)
    fix tid' b2
    assume "tid' \<in> set tids" "shape b2 = shape b1"
    then show "\<exists>es. fst (body tid' b2) = Returned \<and> step R es b2 (snd (body tid' b2)) \<and> set es = E tid'"
      using Cons.prems [of tid' b2] sh1 by simp
  qed
  then obtain es2 where
    r2: "fst (parallel_region body tids b1) = Returned"
    and s2: "step R es2 b1 (snd (parallel_region body tids b1))"
    and e2: "set es2 = (\<Union>tid\<in>set tids. E tid)" by blast
  have "step R (es1 @ es2) b (snd (parallel_region body tids b1))"
    using step_trans [OF s1 [folded b1_def] s2] .
  with r2 e1 e2 rt show ?case
    by (intro exI [of _ "es1 @ es2"]) (auto simp: case_prod_beta)
qed

lemma OneToOne_thread_pairs_shape:
  "shape b1 = shape b \<Longrightarrow> OneToOne_thread_pairs k b1 tid = OneToOne_thread_pairs k b tid"
  using shape_members(1,2,3) [of b1 b] by (simp add: OneToOne_thread_pairs_def)

lemma OneToOne_connect_step:
  assumes pp: "params_present b" and n0: "0 < length (synapse_params' b)"
    and sz: "size_nc (sources' b) = size_nc (targets' b)"
    and dist: "distinct (node_ids (targets' b))"
    and nodes: "\<forall>tid<num_threads k. \<forall>n\<in>set (local_nodes k tid). \<not> is_proxy n \<and> (rp \<longrightarrow> has_proxies n)"
  shows "\<exists>es. fst (OneToOne_connect' k rp b) = Returned
           \<and> step (VpSpecific ` {0..<num_threads k}) es b (snd (OneToOne_connect' k rp b))
           \<and> set es = (\<Union>tid\<in>{0..<num_threads k}. OneToOne_thread_pairs k b tid)"
proof -
  have "\<exists>es. fst (parallel_region (OneToOne_body k rp) [0..<num_threads k] b) = Returned
           \<and> step (VpSpecific ` {0..<num_threads k}) es b
                (snd (parallel_region (OneToOne_body k rp) [0..<num_threads k] b))
           \<and> set es = (\<Union>tid\<in>set [0..<num_threads k]. OneToOne_thread_pairs k b tid)"
  proof (rule parallel_region_step)
    fix tid b1
    assume tid: "tid \<in> set [0..<num_threads k]" and sh: "shape b1 = shape b"
    have pp1: "params_present b1" by (rule shape_params_present [OF sh pp])
    have n1: "0 < length (synapse_params' b1)" using n0 shape_members(13) [OF sh] by simp
    have sz1: "size_nc (sources' b1) = size_nc (targets' b1)"
      using sz shape_members(1,2) [OF sh] by simp
    have d1: "distinct (node_ids (targets' b1))" using dist shape_members(2) [OF sh] by simp
    have nd: "\<forall>n\<in>set (local_nodes k tid). \<not> is_proxy n \<and> (rp \<longrightarrow> has_proxies n)"
      using nodes tid by simp
    from OneToOne_body_step [OF pp1 n1 sz1 d1 nd] obtain es where
      "fst (OneToOne_body k rp tid b1) = Returned"
      "step {VpSpecific tid} es b1 (snd (OneToOne_body k rp tid b1))"
      "set es = OneToOne_thread_pairs k b1 tid" by blast
    moreover have "{VpSpecific tid} \<subseteq> VpSpecific ` {0..<num_threads k}" using tid by auto
    ultimately show "\<exists>es. fst (OneToOne_body k rp tid b1) = Returned
        \<and> step (VpSpecific ` {0..<num_threads k}) es b1 (snd (OneToOne_body k rp tid b1))
        \<and> set es = OneToOne_thread_pairs k b tid"
      using OneToOne_thread_pairs_shape [OF sh] step_mono by metis
  qed
  then show ?thesis by (simp add: OneToOne_connect'_def omp_parallel_def)
qed

text \<open>
  Claim C7. For the one-to-one rule on source and target collections of equal size with
  autapses disallowed, the set of edges handed to the storage is exactly the set of the pairs
  \<open>(s\<^sub>i, t\<^sub>i)\<close> of the index pairing with \<open>s\<^sub>i \<noteq> t\<^sub>i\<close>; with sources and targets both
  \<open>1, 2, 3\<close> there is no edge. The threads of the kernel are all threads of the simulation:
  every target is a node of one of them. The builder is one whose parameters are in place and
  that has a synapse type, the target collection holds every node once, and where the rule
  requires proxies the nodes have them; then no worker throws.
\<close>

theorem OneToOne_edge_set:
  assumes "size_nc (sources' b) = size_nc (targets' b)"
    and "\<not> allow_autapses' b"
    and "params_present b" and "0 < length (synapse_params' b)"
    and "distinct (node_ids (targets' b))"
    and "\<forall>tid<num_threads k. \<forall>n\<in>set (local_nodes k tid). \<not> is_proxy n \<and> (rp \<longrightarrow> has_proxies n)"
    and "\<forall>t\<in>set (node_ids (targets' b)). \<exists>tid<num_threads k. t \<in> node_id ` set (local_nodes k tid)"
  shows "fst (OneToOne_connect' k rp b) = Returned
         \<and> exceptions_raised' (snd (OneToOne_connect' k rp b)) = exceptions_raised' b
         \<and> (\<exists>new. events (snd (OneToOne_connect' k rp b)) = events b @ new
               \<and> set (edges new) =
                   {(node_ids (sources' b) ! i, node_ids (targets' b) ! i) | i.
                      i < size_nc (targets' b)
                      \<and> node_ids (sources' b) ! i \<noteq> node_ids (targets' b) ! i})"
proof -
  from OneToOne_connect_step [OF assms(3,4,1,5,6)] obtain es where
    r: "fst (OneToOne_connect' k rp b) = Returned"
    and s: "step (VpSpecific ` {0..<num_threads k}) es b (snd (OneToOne_connect' k rp b))"
    and e: "set es = (\<Union>tid\<in>{0..<num_threads k}. OneToOne_thread_pairs k b tid)" by blast
  have "(\<Union>tid\<in>{0..<num_threads k}. OneToOne_thread_pairs k b tid) =
          {(node_ids (sources' b) ! i, node_ids (targets' b) ! i) | i.
             i < size_nc (targets' b) \<and> node_ids (sources' b) ! i \<noteq> node_ids (targets' b) ! i}"
    (is "?L = ?R")
  proof (intro set_eqI iffI)
    fix x assume "x \<in> ?L"
    then show "x \<in> ?R" using assms(2) unfolding OneToOne_thread_pairs_def by auto
  next
    fix x assume "x \<in> ?R"
    then obtain i where x: "x = (node_ids (sources' b) ! i, node_ids (targets' b) ! i)"
      and i: "i < size_nc (targets' b)"
      and ne: "node_ids (sources' b) ! i \<noteq> node_ids (targets' b) ! i" by auto
    from i have "node_ids (targets' b) ! i \<in> set (node_ids (targets' b))" by (simp add: size_nc_def)
    with assms(7) obtain tid where "tid < num_threads k"
      "node_ids (targets' b) ! i \<in> node_id ` set (local_nodes k tid)" by blast
    with x i ne show "x \<in> ?L" unfolding OneToOne_thread_pairs_def by force
  qed
  with r s e show ?thesis unfolding step_def by auto
qed

theorem OneToOne_edge_set_witness:
  "fst (OneToOne_connect' ex_kernel False ((ex_builder [1, 2, 3] [1, 2, 3])\<lparr>allow_autapses' := False\<rparr>)) = Returned
   \<and> edges (events (snd (OneToOne_connect' ex_kernel False
                ((ex_builder [1, 2, 3] [1, 2, 3])\<lparr>allow_autapses' := False\<rparr>)))) = []"
proof -
  let ?b = "(ex_builder [1, 2, 3] [1, 2, 3])\<lparr>allow_autapses' := False\<rparr>"
  have 1: "size_nc (sources' ?b) = size_nc (targets' ?b)"
    by (simp add: ex_builder_def collection_def size_nc_def)
  have 2: "\<not> allow_autapses' ?b" by simp
  have 3: "params_present ?b" by (simp add: params_present_def ex_builder_def)
  have 4: "0 < length (synapse_params' ?b)" by (simp add: ex_builder_def)
  have 5: "distinct (node_ids (targets' ?b))" by (simp add: ex_builder_def collection_def)
  have 6: "\<forall>tid<num_threads ex_kernel. \<forall>n\<in>set (local_nodes ex_kernel tid).
             \<not> is_proxy n \<and> (False \<longrightarrow> has_proxies n)"
    by (simp add: ex_kernel_def neuron_def)
  have 7: "\<forall>t\<in>set (node_ids (targets' ?b)). \<exists>tid<num_threads ex_kernel.
             t \<in> node_id ` set (local_nodes ex_kernel tid)"
  proof -
    have "\<exists>tid<num_threads ex_kernel. (1::nat) \<in> node_id ` set (local_nodes ex_kernel tid)"
      by (rule exI [of _ 0]) (simp add: ex_kernel_def neuron_def)
    moreover have "\<exists>tid<num_threads ex_kernel. (2::nat) \<in> node_id ` set (local_nodes ex_kernel tid)"
      by (rule exI [of _ 1]) (simp add: ex_kernel_def neuron_def)
    moreover have "\<exists>tid<num_threads ex_kernel. (3::nat) \<in> node_id ` set (local_nodes ex_kernel tid)"
      by (rule exI [of _ 0]) (simp add: ex_kernel_def neuron_def)
    ultimately show ?thesis by (simp add: ex_builder_def collection_def)
  qed
  from OneToOne_edge_set [OF 1 2 3 4 5 6 7] obtain new where
    r: "fst (OneToOne_connect' ex_kernel False ?b) = Returned"
    and ev: "events (snd (OneToOne_connect' ex_kernel False ?b)) = events ?b @ new"
    and e: "set (edges new) =
              {(node_ids (sources' ?b) ! i, node_ids (targets' ?b) ! i) | i.
                 i < size_nc (targets' ?b) \<and> node_ids (sources' ?b) ! i \<noteq> node_ids (targets' ?b) ! i}"
    by blast
  have "set (edges new) = {}" unfolding e by (simp add: ex_builder_def)
  with r ev show ?thesis by (simp add: ex_builder_def)
qed

subsection \<open>Rethrowing the first captured exception\<close>

lemma rethrow_loop_none:
  "\<forall>t\<in>set tids. t < length slots \<and> slots ! t = None \<Longrightarrow> rethrow_loop tids slots = Returned"
  by (induction tids) simp_all

lemma rethrow_loop_first:
  "\<forall>t\<in>set xs. t < length slots \<and> slots ! t = None \<Longrightarrow> i < length slots \<Longrightarrow> slots ! i = Some e
   \<Longrightarrow> rethrow_loop (xs @ i # ys) slots = Raised (WrappedThreadException e)"
  by (induction xs) simp_all

lemma upt_split: "i < n \<Longrightarrow> [0..<n] = [0..<i] @ i # [Suc i..<n]"
  using upt_add_eq_append [of 0 i "n - i"] upt_conv_Cons [of i n] by simp

lemma check_exceptions_first:
  assumes "length (exceptions_raised' b) = num_threads k" and "i < num_threads k"
    and "exceptions_raised' b ! i = Some e" and "\<forall>j<i. exceptions_raised' b ! j = None"
  shows "check_exceptions_raised k b = Raised (WrappedThreadException e)"
proof -
  have "\<forall>t\<in>set [0..<i]. t < length (exceptions_raised' b) \<and> exceptions_raised' b ! t = None"
    using assms by simp
  from rethrow_loop_first [OF this, of i e "[Suc i..<num_threads k]"] assms
  show ?thesis by (simp add: check_exceptions_raised_def upt_split [OF assms(2)])
qed

lemma check_exceptions_none:
  assumes "length (exceptions_raised' b) = num_threads k"
    and "\<forall>j<num_threads k. exceptions_raised' b ! j = None"
  shows "check_exceptions_raised k b = Returned"
  using assms by (simp add: check_exceptions_raised_def rethrow_loop_none)

text \<open>
  Claim C2. If a worker captures an exception during \<^verbatim>\<open>connect()\<close> or
  \<^verbatim>\<open>disconnect()\<close>, then after the parallel region the builder throws a
  \<^verbatim>\<open>WrappedThreadException\<close> that carries the exception of the first thread, in the order
  of the thread numbers, whose slot is filled, whatever the later slots hold; if no slot is
  filled the call returns. The calls of the rule before the loop over the slots have returned
  with the state \<open>b1\<close>; the builder has one slot for each thread. The last part is the capture:
  the handler of a worker puts what the body throws into the slot of the thread.
\<close>

theorem first_captured_exception_rethrown:
  "(connect_calls k r b = (Returned, b1) \<and> length (exceptions_raised' b1) = num_threads k
      \<and> i < num_threads k \<and> exceptions_raised' b1 ! i = Some e
      \<and> (\<forall>j<i. exceptions_raised' b1 ! j = None)
     \<longrightarrow> connect k r b = (Raised (WrappedThreadException e), b1))
   \<and> (connect_calls k r b = (Returned, b1) \<and> length (exceptions_raised' b1) = num_threads k
      \<and> (\<forall>j<num_threads k. exceptions_raised' b1 ! j = None)
     \<longrightarrow> connect k r b = (Returned, b1))
   \<and> (disconnect_calls r b = (Returned, b1) \<and> length (exceptions_raised' b1) = num_threads k
      \<and> i < num_threads k \<and> exceptions_raised' b1 ! i = Some e
      \<and> (\<forall>j<i. exceptions_raised' b1 ! j = None)
     \<longrightarrow> disconnect k r b = (Raised (WrappedThreadException e), b1))
   \<and> (disconnect_calls r b = (Returned, b1) \<and> length (exceptions_raised' b1) = num_threads k
      \<and> (\<forall>j<num_threads k. exceptions_raised' b1 ! j = None)
     \<longrightarrow> disconnect k r b = (Returned, b1))
   \<and> (body tid b = (Raised e, b2) \<and> e \<noteq> UndefinedBehaviour \<and> tid < length (exceptions_raised' b2)
     \<longrightarrow> run_thread body tid b
           = (Returned, b2\<lparr>exceptions_raised' := (exceptions_raised' b2)[tid := Some e]\<rparr>))"
  using check_exceptions_first [of b1 k i e] check_exceptions_none [of b1 k]
  by (auto simp: connect_def disconnect_def run_thread_def)

lemmas run_defs = connect_def connect_calls_def check_exceptions_raised_def OneToOne_connect'_def omp_parallel_def
  run_thread_def OneToOne_body_def loop_over_targets'_def single_connect'_def update_param_dict'_def
  synapse_values_def delay_value_def weight_value_def skip_conn_parameter'_def get_node_or_proxy_def proxy_node_def
  swap_sources_targets_def reset_all_def reset_weights'_def reset_delays'_def get_connection_model_def
  size_nc_def get_lid_def draw_def ulrand_def bino_dist_def

lemma ex_device_calls:
  "connect_calls ex_device_kernel (ex_rule ex_device_kernel True)
       ((ex_builder [1] [5])\<lparr>exceptions_raised' := [None, None, None]\<rparr>)
     = (Returned, (ex_builder [1] [5])
                    \<lparr>exceptions_raised' := [None, Some IllegalConnection, Some IllegalConnection]\<rparr>)"
  by (simp add: run_defs ex_rule_def ex_builder_def ex_device_kernel_def collection_def device_def
      static_synapse_def upt_rec Let_def)

lemma ex_plain_calls:
  "connect_calls ex_kernel (ex_rule ex_kernel False) (ex_builder [1, 2] [3, 4])
     = (Returned, (ex_builder [1, 2] [3, 4])\<lparr>events := [Connect 1 3 0 0, Connect 2 4 1 0]\<rparr>)"
  by (simp add: run_defs ex_rule_def ex_builder_def ex_kernel_def collection_def neuron_def
      static_synapse_def upt_rec Let_def)

theorem first_captured_exception_rethrown_witness:
  "connect ex_device_kernel (ex_rule ex_device_kernel True)
       ((ex_builder [1] [5])\<lparr>exceptions_raised' := [None, None, None]\<rparr>)
     = (Raised (WrappedThreadException IllegalConnection),
        (ex_builder [1] [5])\<lparr>exceptions_raised' := [None, Some IllegalConnection, Some IllegalConnection]\<rparr>)
   \<and> connect ex_kernel (ex_rule ex_kernel False) (ex_builder [1, 2] [3, 4])
     = (Returned, (ex_builder [1, 2] [3, 4])\<lparr>events := [Connect 1 3 0 0, Connect 2 4 1 0]\<rparr>)"
proof -
  let ?b1 = "(ex_builder [1] [5])\<lparr>exceptions_raised' := [None, Some IllegalConnection, Some IllegalConnection]\<rparr>"
  let ?b2 = "(ex_builder [1, 2] [3, 4])\<lparr>events := [Connect 1 3 0 0, Connect 2 4 1 0]\<rparr>"
  have 1: "length (exceptions_raised' ?b1) = num_threads ex_device_kernel" "1 < num_threads ex_device_kernel"
    "exceptions_raised' ?b1 ! 1 = Some IllegalConnection" "\<forall>j<1. exceptions_raised' ?b1 ! j = None"
    by (simp_all add: ex_device_kernel_def)
  have 2: "length (exceptions_raised' ?b2) = num_threads ex_kernel"
    "\<forall>j<num_threads ex_kernel. exceptions_raised' ?b2 ! j = None"
    by (simp_all add: ex_kernel_def ex_builder_def less_Suc_eq numeral_2_eq_2)
  show ?thesis
    using first_captured_exception_rethrown [of ex_device_kernel "ex_rule ex_device_kernel True"
            "(ex_builder [1] [5])\<lparr>exceptions_raised' := [None, None, None]\<rparr>" ?b1 1 IllegalConnection]
          first_captured_exception_rethrown [of ex_kernel "ex_rule ex_kernel False"
            "ex_builder [1, 2] [3, 4]" ?b2]
          ex_device_calls ex_plain_calls 1 2
    by simp
qed

subsection \<open>Regions whose workers may throw\<close>

lemma step_run: "step R es b b' \<Longrightarrow> run R b b'"
  unfolding step_def run_def by blast

lemma run_refl: "run R b b"
  by (simp add: run_def)

lemma run_trans: "run R b b1 \<Longrightarrow> run R b1 b2 \<Longrightarrow> run R b b2"
  unfolding run_def by (elim conjE exE) auto

lemma run_mono: "run R b b' \<Longrightarrow> R \<subseteq> R' \<Longrightarrow> run R' b b'"
  unfolding run_def by blast

lemma run_shape: "run R b b' \<Longrightarrow> shape b' = shape b"
  by (simp add: run_def)

lemma run_slot: "run R b b1 \<Longrightarrow> run R b (b1\<lparr>exceptions_raised' := slots\<rparr>)"
  by (simp add: run_def shape_def)

lemma run_thread_run:
  assumes "run R b (snd (body tid b))"
  shows "run R b (snd (run_thread body tid b))"
proof (cases "body tid b")
  case (Pair oc b1)
  with assms have "run R b b1" by simp
  with Pair show ?thesis
    by (cases oc) (simp_all add: run_thread_def run_slot)
qed

lemma parallel_region_run:
  assumes "\<And>tid b1. tid \<in> set tids \<Longrightarrow> run R b1 (snd (body tid b1))"
  shows "run R b (snd (parallel_region body tids b))"
  using assms
proof (induction tids arbitrary: b)
  case Nil
  show ?case by (simp add: run_refl)
next
  case (Cons tid tids)
  have 1: "run R b (snd (run_thread body tid b))"
    by (rule run_thread_run) (simp add: Cons.prems)
  have 2: "run R (snd (run_thread body tid b)) (snd (parallel_region body tids (snd (run_thread body tid b))))"
    by (rule Cons.IH) (simp add: Cons.prems)
  from run_trans [OF 1 2] show ?case by (simp add: case_prod_beta)
qed

lemma OneToOne_target_loop_run:
  "run {VpSpecific tid} b (snd (OneToOne_target_loop k rp tid ts ss b))"
proof (induction k rp tid ts ss b rule: OneToOne_target_loop.induct)
  case (1 k rp tid source_it b)
  show ?case by (simp add: run_refl)
next
  case (2 k rp tid tnode_id target_it b)
  show ?case by (simp add: run_refl)
next
  case (3 k rp tid tnode_id target_it snode_id source_it b)
  show ?case
  proof (cases "snode_id = tnode_id \<and> \<not> allow_autapses' b")
    case True
    with "3.IH"(1) show ?thesis by simp
  next
    case na: False
    show ?thesis
    proof (cases "is_proxy (get_node_or_proxy k tnode_id tid)")
      case True
      from "3.IH"(2) [OF na refl True] step_run [OF step_skip_conn_parameter [of "{VpSpecific tid}" b tid 1]]
      show ?thesis using na True by (auto simp: Let_def intro: run_trans)
    next
      case False
      obtain x b1 where sc:
        "single_connect' k rp snode_id (get_node_or_proxy k tnode_id tid) tid (VpSpecific tid) b = (x, b1)"
        by (cases "single_connect' k rp snode_id (get_node_or_proxy k tnode_id tid) tid (VpSpecific tid) b")
      from single_connect_any [of "VpSpecific tid" b k rp snode_id "get_node_or_proxy k tnode_id tid" tid] sc
      have r1: "run {VpSpecific tid} b b1" by (auto intro: step_run)
      show ?thesis
      proof (cases x)
        case (Some e)
        with na False sc r1 show ?thesis by (auto simp: Let_def)
      next
        case None
        from "3.IH"(3) [OF na refl False sc [symmetric] None]
        have "run {VpSpecific tid} b1 (snd (OneToOne_target_loop k rp tid target_it source_it b1))" .
        with na False sc None r1 show ?thesis by (auto simp: Let_def intro: run_trans)
      qed
    qed
  qed
qed


lemma OneToOne_local_loop_run:
  "run {VpSpecific tid} b (snd (OneToOne_local_loop k rp tid ns b))"
proof (induction ns arbitrary: b)
  case Nil
  show ?case by (simp add: run_refl)
next
  case (Cons n ns)
  show ?case
  proof (cases "get_lid (targets' b) (node_id n)")
    case None
    with Cons.IH [of b] show ?thesis by simp
  next
    case (Some lid)
    obtain x b1 where sc:
      "single_connect' k rp (node_ids (sources' b) ! lid) n tid (VpSpecific tid) b = (x, b1)"
      by (cases "single_connect' k rp (node_ids (sources' b) ! lid) n tid (VpSpecific tid) b")
    from single_connect_any [of "VpSpecific tid" b k rp "node_ids (sources' b) ! lid" n tid] sc
    have r1: "run {VpSpecific tid} b b1" by (auto intro: step_run)
    from run_trans [OF r1 Cons.IH [of b1]] r1 Cons.IH [of b] Some sc show ?thesis
      by (cases x) (auto simp: run_refl)
  qed
qed

lemma OneToOne_connect_run:
  "run (VpSpecific ` {0..<num_threads k}) b (snd (OneToOne_connect' k rp b))"
  unfolding OneToOne_connect'_def omp_parallel_def
proof (rule parallel_region_run)
  fix tid b1
  assume "tid \<in> set [0..<num_threads k]"
  then have "{VpSpecific tid} \<subseteq> VpSpecific ` {0..<num_threads k}" by auto
  moreover have "run {VpSpecific tid} b1 (snd (OneToOne_body k rp tid b1))"
    by (simp add: OneToOne_body_def OneToOne_target_loop_run OneToOne_local_loop_run)
  ultimately show "run (VpSpecific ` {0..<num_threads k}) b1 (snd (OneToOne_body k rp tid b1))"
    by (rule run_mono [rotated])
qed

subsection \<open>The replay for symmetric connections\<close>

lemma reset_is_reset: "reset p = Inr p' \<Longrightarrow> is_reset p'"
  by (cases p) (auto simp: list_all_iff split: if_splits)

lemma reset_each_is_reset:
  "reset_each ps = (None, ps') \<Longrightarrow> list_all (\<lambda>w. case w of None \<Rightarrow> True | Some p \<Rightarrow> is_reset p) ps'"
proof (induction ps arbitrary: ps')
  case Nil
  then show ?case by simp
next
  case (Cons p ps)
  then show ?case
    by (cases p) (auto split: prod.splits sum.splits dest: reset_is_reset)
qed

lemma reset_named_is_reset:
  "reset_named ps = (None, ps') \<Longrightarrow> list_all (\<lambda>np. is_reset (snd np)) ps'"
proof (induction ps arbitrary: ps')
  case Nil
  then show ?case by simp
next
  case (Cons np ps)
  then show ?case
    by (cases np) (auto split: prod.splits sum.splits dest: reset_is_reset)
qed

lemma reset_synapse_params_is_reset:
  "reset_synapse_params pss = (None, pss') \<Longrightarrow> list_all (list_all (\<lambda>np. is_reset (snd np))) pss'"
proof (induction pss arbitrary: pss')
  case Nil
  then show ?case by simp
next
  case (Cons ps pss)
  then show ?case
    by (auto split: prod.splits option.splits dest: reset_named_is_reset)
qed

lemma reset_all_is_reset:
  assumes "reset_all b1 = (None, b2)"
  shows "all_parameters_reset b2"
  using assms
  unfolding reset_all_def reset_weights'_def reset_delays'_def all_parameters_reset_def
  by (auto split: prod.splits option.splits
      dest: reset_each_is_reset reset_synapse_params_is_reset)

text \<open>
  Claim C3. When \<^verbatim>\<open>connect()\<close> is called with \<^verbatim>\<open>make_symmetric\<close> set, on a rule that
  supports symmetric connections and does not create them itself, the builder runs
  \<^verbatim>\<open>connect_\<close> of the rule once, resets every weight, delay and synapse parameter, swaps
  the source and target collections, runs \<^verbatim>\<open>connect_\<close> a second time and swaps back, so
  that afterwards the builder holds the source and target collections it held before. The
  builder is not in structural plasticity mode; \<^verbatim>\<open>connect_\<close> of the rule assigns none of
  the members of the builder but the parameter objects (as every \<^verbatim>\<open>connect_\<close> of the file
  does), and the two runs and the resets return.
\<close>

theorem symmetric_replay:
  assumes "make_symmetric' b" and "supports_symmetric r"
    and "\<not> creates_symmetric_connections' b" and "\<not> use_structural_plasticity' b"
    and keeps: "\<forall>x. shape (snd (connect' r x)) = shape x"
    and first: "connect' r b = (Returned, b1)"
    and resets: "reset_all b1 = (None, b2)"
    and second: "connect' r (swap_sources_targets b2) = (Returned, b3)"
  shows "connect k r b
           = (check_exceptions_raised k (swap_sources_targets b3), swap_sources_targets b3)
         \<and> all_parameters_reset b2
         \<and> sources' (swap_sources_targets b2) = targets' b
         \<and> targets' (swap_sources_targets b2) = sources' b
         \<and> sources' (swap_sources_targets b3) = sources' b
         \<and> targets' (swap_sources_targets b3) = targets' b"
proof -
  have sh1: "shape b1 = shape b" using keeps first by (metis snd_conv)
  have fr2: "frame b2 = frame b1" using frame_reset_all [of b1] resets by simp
  have sh3: "shape b3 = shape (swap_sources_targets b2)" using keeps second by (metis snd_conv)
  have m1: "make_symmetric' b1" "\<not> creates_symmetric_connections' b1"
    "sources' b1 = sources' b" "targets' b1 = targets' b"
    using assms(1,3) shape_members(1,2,5,6) [OF sh1] by simp_all
  have m2: "sources' b2 = sources' b" "targets' b2 = targets' b"
    using fr2 m1 by (simp_all add: frame_def)
  have m3: "sources' b3 = targets' b" "targets' b3 = sources' b"
    using shape_members(1,2) [OF sh3] m2 by (simp_all add: swap_sources_targets_def)
  have calls: "connect_calls k r b = (Returned, swap_sources_targets b3)"
    using assms(1-4) first resets second m1
    by (simp add: connect_calls_def list_ex_iff)
  show ?thesis
    using calls reset_all_is_reset [OF resets] m2 m3
    by (simp add: connect_def swap_sources_targets_def)
qed

lemma ex_base_sym:
  "ConnBuilder ex_kernel (collection s) (collection t) ex_symmetric [ex_array_syn_spec]
     = Inr (ex_sym_builder s t [0, 0] [])"
  by (simp add: ctor_defs ex_defs ex_sym_builder_def ex_symmetric_def ex_array_syn_spec_def
      Let_def numeral_2_eq_2)

lemma ex_sym_first:
  "connect' (ex_rule ex_kernel False) (ex_sym_builder [1, 2] [3, 4] [0, 0] [])
     = (Returned, ex_sym_builder [1, 2] [3, 4] [2, 2] [Connect 1 3 0 0, Connect 2 4 1 0])"
  by (simp add: run_defs ex_rule_def ex_sym_builder_def ex_kernel_def collection_def neuron_def
      static_synapse_def upt_rec Let_def)

lemma ex_sym_resets:
  "reset_all (ex_sym_builder [1, 2] [3, 4] [2, 2] [Connect 1 3 0 0, Connect 2 4 1 0])
     = (None, ex_sym_builder [1, 2] [3, 4] [0, 0] [Connect 1 3 0 0, Connect 2 4 1 0])"
  by (simp add: run_defs ex_sym_builder_def)

lemma ex_sym_swap:
  "swap_sources_targets (ex_sym_builder s t cs evs) = ex_sym_builder t s cs evs"
  by (simp add: swap_sources_targets_def ex_sym_builder_def)

lemma ex_sym_second:
  "connect' (ex_rule ex_kernel False)
       (swap_sources_targets (ex_sym_builder [1, 2] [3, 4] [0, 0] [Connect 1 3 0 0, Connect 2 4 1 0]))
     = (Returned, ex_sym_builder [3, 4] [1, 2] [2, 2]
                    [Connect 1 3 0 0, Connect 2 4 1 0, Connect 3 1 0 0, Connect 4 2 1 0])"
  unfolding ex_sym_swap
  by (simp add: run_defs ex_rule_def ex_sym_builder_def ex_kernel_def collection_def neuron_def
      static_synapse_def upt_rec Let_def)

theorem symmetric_replay_witness:
  "connect ex_kernel (ex_rule ex_kernel False) (ex_sym_builder [1, 2] [3, 4] [0, 0] [])
     = (Returned, ex_sym_builder [1, 2] [3, 4] [2, 2]
                    [Connect 1 3 0 0, Connect 2 4 1 0, Connect 3 1 0 0, Connect 4 2 1 0])
   \<and> all_parameters_reset (ex_sym_builder [1, 2] [3, 4] [0, 0] [Connect 1 3 0 0, Connect 2 4 1 0])"
proof -
  let ?r = "ex_rule ex_kernel False"
  have 1: "make_symmetric' (ex_sym_builder [1, 2] [3, 4] [0, 0] [])" "supports_symmetric ?r"
    "\<not> creates_symmetric_connections' (ex_sym_builder [1, 2] [3, 4] [0, 0] [])"
    "\<not> use_structural_plasticity' (ex_sym_builder [1, 2] [3, 4] [0, 0] [])"
    by (simp_all add: ex_sym_builder_def ex_rule_def)
  have keeps: "\<forall>x. shape (snd (connect' ?r x)) = shape x"
    using run_shape [OF OneToOne_connect_run [of ex_kernel _ False]] by (simp add: ex_rule_def)
  have ok: "check_exceptions_raised ex_kernel
              (ex_sym_builder [1, 2] [3, 4] [2, 2]
                 [Connect 1 3 0 0, Connect 2 4 1 0, Connect 3 1 0 0, Connect 4 2 1 0]) = Returned"
    by (simp add: check_exceptions_raised_def ex_kernel_def ex_sym_builder_def upt_rec)
  from symmetric_replay [OF 1 keeps ex_sym_first ex_sym_resets ex_sym_second, of ex_kernel] ok
  show ?thesis by (simp add: ex_sym_swap)
qed

subsection \<open>The symmetric Bernoulli rule: the streams\<close>

lemma ex_sb_ctor:
  "SymmetricBernoulliBuilder ex_kernel (collection s) (collection t) ex_symmetric_bernoulli (1 / 2)
       [ex_random_syn_spec]
     = Inr (ex_sb_builder s t, 1 / 2)"
  by (simp add: SymmetricBernoulliBuilder_def ctor_defs ex_defs ex_sb_builder_def
      ex_symmetric_bernoulli_def ex_random_syn_spec_def Let_def numeral_2_eq_2)

lemma run_ulrand: "run {r} b (snd (ulrand k r n b))"
  using step_run [OF step_draw [of r b k]] by (simp add: ulrand_def case_prod_beta)

lemma run_bino_dist: "run {r} b (snd (bino_dist k r n b))"
  using step_run [OF step_draw [of r b k]] by (simp add: bino_dist_def case_prod_beta)

lemma run_single_connect: "run {r} b (snd (single_connect' k rp s t tt r b))"
  using single_connect_any [of r b k rp s t tt] by (auto intro: step_run)

lemma SymmetricBernoulli_indegree_run: "run {r} b (snd (SymmetricBernoulli_indegree k fuel r b))"
proof (induction fuel arbitrary: b)
  case 0
  show ?case by (simp add: run_refl)
next
  case (Suc fuel)
  from run_trans [OF run_bino_dist Suc.IH] run_bino_dist [of r b k "size_nc (sources' b)"]
  show ?case by (simp add: case_prod_beta)
qed

lemma SymmetricBernoulli_sources_run:
  "run {r} b (snd (SymmetricBernoulli_sources k fuel rp tid r tnode_id target i indegree prev b))"
proof (induction fuel arbitrary: b i prev)
  case 0
  show ?case by (simp add: run_refl)
next
  case (Suc fuel)
  show ?case
  proof (cases "i < indegree")
    case False
    then show ?thesis by (simp add: run_refl)
  next
    case True
    obtain s_id b1 where u: "ulrand k r (size_nc (sources' b)) b = (s_id, b1)"
      by (cases "ulrand k r (size_nc (sources' b)) b")
    have r1: "run {r} b b1" using run_ulrand [of r b k "size_nc (sources' b)"] u by simp
    let ?snode = "node_ids (sources' b1) ! s_id"
    show ?thesis
    proof (cases "?snode = tnode_id \<or> ?snode \<in> set prev")
      case rej: True
      from run_trans [OF r1 Suc.IH [of b1 i prev]] True u rej show ?thesis by auto
    next
      case acc: False
      obtain x b2 where c1:
        "(if \<not> is_proxy target then single_connect' k rp ?snode target tid r b1 else (None, b1)) = (x, b2)"
        by (cases "if \<not> is_proxy target then single_connect' k rp ?snode target tid r b1 else (None, b1)")
      have r2: "run {r} b1 b2"
        using c1 run_single_connect [of r b1 k rp ?snode target tid] run_refl [of "{r}" b1]
        by (auto split: if_splits)
      show ?thesis
      proof (cases x)
        case (Some e)
        with True u acc c1 run_trans [OF r1 r2] show ?thesis by auto
      next
        case n1: None
        let ?source = "get_node_or_proxy k ?snode tid"
        obtain y b3 where c2:
          "(if \<not> is_proxy ?source then single_connect' k rp tnode_id ?source tid r b2 else (None, b2)) = (y, b3)"
          by (cases "if \<not> is_proxy ?source then single_connect' k rp tnode_id ?source tid r b2 else (None, b2)")
        have r3: "run {r} b2 b3"
          using c2 run_single_connect [of r b2 k rp tnode_id ?source tid] run_refl [of "{r}" b2]
          by (auto split: if_splits)
        have r03: "run {r} b b3" by (rule run_trans [OF run_trans [OF r1 r2] r3])
        show ?thesis
        proof (cases y)
          case (Some e)
          with True u acc c1 n1 c2 r03 show ?thesis by auto
        next
          case n2: None
          from run_trans [OF r03 Suc.IH [of b3 "Suc i" "?snode # prev"]]
          show ?thesis using True u acc c1 n1 c2 n2 by auto
        qed
      qed
    qed
  qed
qed

lemma SymmetricBernoulli_target_loop_run:
  "run {r} b (snd (SymmetricBernoulli_target_loop k fuel rp tid r ts b))"
proof (induction ts arbitrary: b)
  case Nil
  show ?case by (simp add: run_refl)
next
  case (Cons t ts)
  obtain x b1 where d: "SymmetricBernoulli_indegree k fuel r b = (x, b1)"
    by (cases "SymmetricBernoulli_indegree k fuel r b")
  have r1: "run {r} b b1" using SymmetricBernoulli_indegree_run [of r b k fuel] d by simp
  show ?case
  proof (cases x)
    case None
    with d r1 show ?thesis by simp
  next
    case (Some indegree)
    obtain oc b2 where s:
      "SymmetricBernoulli_sources k fuel rp tid r t (get_node_or_proxy k t tid) 0 indegree [] b1 = (oc, b2)"
      by (cases "SymmetricBernoulli_sources k fuel rp tid r t (get_node_or_proxy k t tid) 0 indegree [] b1")
    have r2: "run {r} b1 b2"
      using SymmetricBernoulli_sources_run [of r b1 k fuel rp tid t "get_node_or_proxy k t tid" 0 indegree "[]"] s
      by simp
    from run_trans [OF run_trans [OF r1 r2] Cons.IH [of b2]] run_trans [OF r1 r2] d Some s
    show ?thesis by (cases oc) auto
  qed
qed

lemma SymmetricBernoulli_body_run:
  "run {VpSynced tid} b (snd (SymmetricBernoulli_body k fuel rp tid b))"
  by (simp add: SymmetricBernoulli_body_def SymmetricBernoulli_target_loop_run)

text \<open>
  Claim C1. In \<^verbatim>\<open>SymmetricBernoulliBuilder::connect_\<close> every random draw, that of the
  truncated binomial in-degree, those of the source indices and those of the edge attributes
  inside \<^verbatim>\<open>single_connect_\<close>, is taken from the rank-synchronized stream, and no draw is
  taken from the stream of the virtual process. The stream is the one that a worker obtains
  with \<^verbatim>\<open>get_vp_synced_rng(tid)\<close>, which gives the same sequence on all threads. The
  statement holds for every builder and kernel, whether or not a worker throws, and for every
  bound on the draws of a loop: it is about every prefix of the run.
\<close>

theorem SymmetricBernoulli_draws_synced:
  "\<exists>new. events (snd (SymmetricBernoulli_connect' k fuel rp b)) = events b @ new
         \<and> set (draws_of new) \<subseteq> VpSynced ` {0..<num_threads k}
         \<and> list_all rank_synchronized (draws_of new)
         \<and> (\<forall>tid. VpSpecific tid \<notin> set (draws_of new))"
proof -
  have "run (VpSynced ` {0..<num_threads k}) b (snd (SymmetricBernoulli_connect' k fuel rp b))"
    unfolding SymmetricBernoulli_connect'_def omp_parallel_def
  proof (rule parallel_region_run)
    fix tid b1
    assume "tid \<in> set [0..<num_threads k]"
    then have "{VpSynced tid} \<subseteq> VpSynced ` {0..<num_threads k}" by auto
    with SymmetricBernoulli_body_run [of tid b1 k fuel rp]
    show "run (VpSynced ` {0..<num_threads k}) b1 (snd (SymmetricBernoulli_body k fuel rp tid b1))"
      by (rule run_mono)
  qed
  then obtain new where ev: "events (snd (SymmetricBernoulli_connect' k fuel rp b)) = events b @ new"
    and d: "set (draws_of new) \<subseteq> VpSynced ` {0..<num_threads k}"
    unfolding run_def by blast
  from d have "list_all rank_synchronized (draws_of new)" by (auto simp: list_all_iff)
  moreover from d have "\<forall>tid. VpSpecific tid \<notin> set (draws_of new)" by auto
  ultimately show ?thesis using ev d by blast
qed

lemma ex_sb_events:
  "events (snd (SymmetricBernoulli_connect' ex_kernel 1 True (ex_sb_builder [1, 2, 3] [1, 2, 3])))
     = [Draw (VpSynced 0), Draw (VpSynced 0), Draw (VpSynced 0),
        Draw (VpSynced 0), Connect 2 3 0 0, Draw (VpSynced 0), Draw (VpSynced 1),
        Draw (VpSynced 1), Draw (VpSynced 1), Draw (VpSynced 1), Connect 3 2 1 0,
        Draw (VpSynced 1)]"
  by (simp add: SymmetricBernoulli_connect'_def SymmetricBernoulli_body_def run_defs ex_sb_builder_def
      ex_kernel_def collection_def neuron_def static_synapse_def upt_rec Let_def)

theorem SymmetricBernoulli_draws_synced_witness:
  "draws_of (events (snd (SymmetricBernoulli_connect' ex_kernel 1 True (ex_sb_builder [1, 2, 3] [1, 2, 3]))))
     = [VpSynced 0, VpSynced 0, VpSynced 0, VpSynced 0, VpSynced 0,
        VpSynced 1, VpSynced 1, VpSynced 1, VpSynced 1, VpSynced 1]
   \<and> list_all rank_synchronized
        (draws_of (events (snd (SymmetricBernoulli_connect' ex_kernel 1 True
                                  (ex_sb_builder [1, 2, 3] [1, 2, 3])))))"
proof -
  from SymmetricBernoulli_draws_synced [of ex_kernel 1 True "ex_sb_builder [1, 2, 3] [1, 2, 3]"]
  obtain new where
    "events (snd (SymmetricBernoulli_connect' ex_kernel 1 True (ex_sb_builder [1, 2, 3] [1, 2, 3])))
       = events (ex_sb_builder [1, 2, 3] [1, 2, 3]) @ new"
    "list_all rank_synchronized (draws_of new)" by blast
  then have "list_all rank_synchronized
        (draws_of (events (snd (SymmetricBernoulli_connect' ex_kernel 1 True
                                  (ex_sb_builder [1, 2, 3] [1, 2, 3])))))"
    by (simp add: ex_sb_builder_def)
  moreover have "draws_of (events (snd (SymmetricBernoulli_connect' ex_kernel 1 True (ex_sb_builder [1, 2, 3] [1, 2, 3]))))
     = [VpSynced 0, VpSynced 0, VpSynced 0, VpSynced 0, VpSynced 0,
        VpSynced 1, VpSynced 1, VpSynced 1, VpSynced 1, VpSynced 1]"
    using ex_sb_events by (simp add: draws_of_def)
  ultimately show ?thesis by simp
qed

subsection \<open>The builders that the constructors make\<close>


lemma layout_register: "layout (register_parameters_requiring_skipping' r p b) = layout b"
  by (simp add: register_parameters_requiring_skipping'_def layout_def)
















subsection \<open>The fixed in-degree rule with the in-degree equal to the number of sources\<close>




























end
